theory Spec2Isabelle
  imports Main "HOL-Library.Sublist"
begin

section \<open>Strings of the host language\<close>

text \<open>
  A JavaScript string is a sequence of UTF-16 code units; the regular expressions of
  the source have no \<^verbatim>\<open>u\<close> flag, so they also work on code units. A code unit is
  modelled by a \<^typ>\<open>char\<close>, which covers the units 0 to 255; a query text or label
  with a unit above 255 is outside the model.
\<close>

abbreviation DQ :: char where "DQ \<equiv> CHR 0x22"
abbreviation SQ :: char where "SQ \<equiv> CHR 0x27"
abbreviation NL :: char where "NL \<equiv> CHR 0x0A"
abbreviation LBRACE :: char where "LBRACE \<equiv> CHR 0x7B"
abbreviation RBRACE :: char where "RBRACE \<equiv> CHR 0x7D"

text \<open>
  \<^verbatim>\<open>String.prototype.trim\<close> removes white space and line terminators at both ends:
  among the units 0 to 255 these are TAB, LF, VT, FF, CR, SPACE and NBSP.
\<close>

definition is_space :: "char \<Rightarrow> bool" where
  "is_space c = (of_char c \<in> {9, 10, 11, 12, 13, 32, 160 :: nat})"

definition trim :: "string \<Rightarrow> string" where
  "trim s = rev (dropWhile is_space (rev (dropWhile is_space s)))"

text \<open>\<^verbatim>\<open>Array.prototype.join\<close> on strings.\<close>

fun join :: "string \<Rightarrow> string list \<Rightarrow> string" where
  "join sep [] = []"
| "join sep [x] = x"
| "join sep (x # y # ys) = x @ sep @ join sep (y # ys)"

section \<open>Reference scanning\<close>

text \<open>
  \<^verbatim>\<open>[...sql.matchAll(/\{([^}]+)\}/g)]\<close>: the matches from left to right, not
  overlapping. A match starts at an opening brace that is followed by one or more units
  other than the closing brace and then by a closing brace; the negated class also
  matches an opening brace and a line terminator. Each match is the pair of
  \<^verbatim>\<open>match[0]\<close> (the whole span) and \<^verbatim>\<open>match[1]\<close> (the captured text). Where no
  match starts, the scan goes on one unit further; after a match it goes on behind
  the match.
\<close>

function matchAll :: "string \<Rightarrow> (string \<times> string) list" where
  "matchAll [] = []"
| "matchAll (c # cs) =
     (if c = LBRACE \<and> takeWhile (\<lambda>x. x \<noteq> RBRACE) cs \<noteq> []
         \<and> dropWhile (\<lambda>x. x \<noteq> RBRACE) cs \<noteq> []
      then (c # takeWhile (\<lambda>x. x \<noteq> RBRACE) cs @ [RBRACE], takeWhile (\<lambda>x. x \<noteq> RBRACE) cs)
             # matchAll (tl (dropWhile (\<lambda>x. x \<noteq> RBRACE) cs))
      else matchAll cs)"
  by pat_completeness auto
termination
proof (relation "measure length")
  show "wf (measure length)" by simp
next
  fix c :: char and cs :: string
  have "length (tl (dropWhile (\<lambda>x. x \<noteq> RBRACE) cs)) \<le> length cs"
    using length_dropWhile_le [of "\<lambda>x. x \<noteq> RBRACE" cs] by simp
  then show "(tl (dropWhile (\<lambda>x. x \<noteq> RBRACE) cs), c # cs) \<in> measure length"
    by simp
next
  fix c :: char and cs :: string
  show "(cs, c # cs) \<in> measure length" by simp
qed

section \<open>Relation names and query rewriting\<close>

text \<open>
  \<^verbatim>\<open>`temp_${nodeLabel.replace(/[^a-zA-Z0-9_]/g, '_')}`\<close>: every unit outside the
  class becomes an underscore, the others stay, and the marker \<^verbatim>\<open>temp_\<close> goes in
  front. Nothing else enters the name.
\<close>

definition is_word_char :: "char \<Rightarrow> bool" where
  "is_word_char c =
     (let n = (of_char c :: nat)
      in (97 \<le> n \<and> n \<le> 122) \<or> (65 \<le> n \<and> n \<le> 90) \<or> (48 \<le> n \<and> n \<le> 57) \<or> n = 95)"

definition tempTableName :: "string \<Rightarrow> string" where
  "tempTableName nodeLabel =
     ''temp_'' @ map (\<lambda>c. if is_word_char c then c else CHR ''_'') nodeLabel"

text \<open>
  \<^verbatim>\<open>str.replace(searchString, replacement)\<close> with a string pattern replaces the first
  occurrence of the pattern and leaves a string without an occurrence as it is. The
  dollar patterns of the replacement text are not modelled: the only replacement the
  handler passes is a relation name, which has no dollar sign (lemma
  \<open>tempTableName_word\<close>).
\<close>

fun replace_first :: "string \<Rightarrow> string \<Rightarrow> string \<Rightarrow> string" where
  "replace_first pat rep [] = (if pat = [] then rep else [])"
| "replace_first pat rep (c # cs) =
     (if prefix pat (c # cs) then rep @ drop (length pat) (c # cs)
      else c # replace_first pat rep cs)"

text \<open>The second loop of the handler: one replacement per match, in the order of the scan.\<close>

definition modifiedSQL :: "string \<Rightarrow> (string \<times> string) list \<Rightarrow> string" where
  "modifiedSQL sql matches =
     foldl (\<lambda>s m. replace_first (fst m) (tempTableName (trim (snd m))) s) sql matches"

text \<open>
  The rewriting as the specification words it: every scanned span, and nothing else,
  gives way to the relation name of its label. The function walks the text exactly as
  the scanner does and emits the name where the scanner reports a match.
\<close>

function rewrite_spans :: "string \<Rightarrow> string" where
  "rewrite_spans [] = []"
| "rewrite_spans (c # cs) =
     (if c = LBRACE \<and> takeWhile (\<lambda>x. x \<noteq> RBRACE) cs \<noteq> []
         \<and> dropWhile (\<lambda>x. x \<noteq> RBRACE) cs \<noteq> []
      then tempTableName (trim (takeWhile (\<lambda>x. x \<noteq> RBRACE) cs))
             @ rewrite_spans (tl (dropWhile (\<lambda>x. x \<noteq> RBRACE) cs))
      else c # rewrite_spans cs)"
  by pat_completeness auto
termination
proof (relation "measure length")
  show "wf (measure length)" by simp
next
  fix c :: char and cs :: string
  have "length (tl (dropWhile (\<lambda>x. x \<noteq> RBRACE) cs)) \<le> length cs"
    using length_dropWhile_le [of "\<lambda>x. x \<noteq> RBRACE" cs] by simp
  then show "(tl (dropWhile (\<lambda>x. x \<noteq> RBRACE) cs), c # cs) \<in> measure length"
    by simp
next
  fix c :: char and cs :: string
  show "(cs, c # cs) \<in> measure length" by simp
qed

section \<open>Result sets and their literals\<close>

text \<open>
  A cached value is a JSON value. Numbers are kept abstract: the type \<open>'n\<close> stands
  for them. A value that is neither null nor a number, a string or a boolean (an
  object, an array, a function) is kept as the text that \<^verbatim>\<open>String\<close> gives for it. A row
  is the list of the own properties of the row object, in the order in which
  \<^verbatim>\<open>Object.keys\<close> lists them.
\<close>

datatype 'n jsval = JNull | JNum 'n | JStr string | JBool bool | JOther string

type_synonym 'n row = "(string \<times> 'n jsval) list"

text \<open>
  What the code takes from the host language and does not define itself: the text
  printed for a number (\<^verbatim>\<open>Number.prototype.toString\<close>), and, for a property name
  that every object inherits from \<^verbatim>\<open>Object.prototype\<close>, the text that \<^verbatim>\<open>String\<close>
  gives for the inherited member. Both are parameters of the functions below.
\<close>

record 'n host =
  number_text :: "'n \<Rightarrow> string"
  inherited_text :: "string \<Rightarrow> string option"

text \<open>The entry of a referenced node: \<^verbatim>\<open>{ results: any[] | null; label: string }\<close>.\<close>

record 'n node =
  results :: "'n row list option"
  label :: string

text \<open>
  \<^verbatim>\<open>row[col]\<close>: the row's own property, else the member that the row inherits under
  that name, else \<^verbatim>\<open>undefined\<close>, here \<^const>\<open>None\<close>.
\<close>

definition row_get :: "'n host \<Rightarrow> 'n row \<Rightarrow> string \<Rightarrow> 'n jsval option" where
  "row_get host row col =
     (case map_of row col of
        Some val \<Rightarrow> Some val
      | None \<Rightarrow> map_option JOther (inherited_text host col))"

text \<open>\<^verbatim>\<open>String(val).replace(/'/g, "''")\<close>\<close>

definition escape_quotes :: "string \<Rightarrow> string" where
  "escape_quotes s = concat (map (\<lambda>c. if c = SQ then [SQ, SQ] else [c]) s)"

text \<open>The body of \<^verbatim>\<open>columns.map(col => ...)\<close>: the literal of one cell.\<close>

fun valueLiteral :: "'n host \<Rightarrow> 'n jsval option \<Rightarrow> string" where
  "valueLiteral host None = ''NULL''"
| "valueLiteral host (Some JNull) = ''NULL''"
| "valueLiteral host (Some (JNum n)) = number_text host n"
| "valueLiteral host (Some (JStr s)) = SQ # escape_quotes s @ [SQ]"
| "valueLiteral host (Some (JBool b)) = SQ # escape_quotes (if b then ''true'' else ''false'') @ [SQ]"
| "valueLiteral host (Some (JOther s)) = SQ # escape_quotes s @ [SQ]"

definition rowLiteral :: "'n host \<Rightarrow> string list \<Rightarrow> 'n row \<Rightarrow> string" where
  "rowLiteral host columns row =
     ''('' @ join '', '' (map (\<lambda>col. valueLiteral host (row_get host row col)) columns) @ '')''"

text \<open>
  The statement that materialises one result set. The handler builds it only for a
  result set with a first row; the second equation is never reached.
\<close>

fun createTableSQL :: "'n host \<Rightarrow> string \<Rightarrow> 'n row list \<Rightarrow> string" where
  "createTableSQL host name (r # rs) =
     (let columns = map fst r;
          vals = join ('','' @ [NL]) (map (rowLiteral host columns) (r # rs));
          columnAliases = join '', '' (map (\<lambda>col. DQ # col @ [DQ]) columns)
      in ''CREATE TEMP TABLE '' @ name @ '' AS SELECT * FROM (VALUES '' @ vals
           @ '') AS t('' @ columnAliases @ '')'')"
| "createTableSQL host name [] = []"

section \<open>The engine and the server\<close>

text \<open>
  The analytical engine is a library outside the repository. \<^verbatim>\<open>runQuery\<close> hands it a
  statement and gets rows or an error; the engine's state changes with it. The engine is
  a parameter of every function below: a function from a state and a statement to an
  outcome (\<^const>\<open>Inl\<close> the error message, \<^const>\<open>Inr\<close> the rows) and the next state.
\<close>

type_synonym ('e, 'n) engine = "'e \<Rightarrow> string \<Rightarrow> (string + 'n row list) \<times> 'e"

text \<open>
  \<^verbatim>\<open>executeSQL\<close> of the server's database module, from the trimming on: what the
  function does once the module has its connection. The server opens the connection
  when it starts, and the handlers below are modelled in that state.
\<close>

definition executeSQL :: "('e, 'n) engine \<Rightarrow> string \<Rightarrow> 'e \<Rightarrow> (string + 'n row list) \<times> 'e" where
  "executeSQL runQuery sql e =
     (let trimmedSQL = trim sql
      in if trimmedSQL = [] then (Inl ''Empty query'', e) else runQuery e trimmedSQL)"

text \<open>
  The whole of \<^verbatim>\<open>executeSQL\<close>, with the check of the connection in front of it:
  \<^verbatim>\<open>if (!conn) { await initDatabase(); }\<close>. Whether the module has its connection is
  read off the state by \<open>conn\<close>. \<^verbatim>\<open>initDatabase\<close> opens the database and, for a new
  file, creates the sample tables; it is a parameter, a function from the state to
  \<^const>\<open>Inl\<close> the error of a rejected promise or \<^const>\<open>Inr\<close>, and the next state.
\<close>

definition executeSQL_module ::
  "('e \<Rightarrow> bool) \<Rightarrow> ('e \<Rightarrow> (string + unit) \<times> 'e) \<Rightarrow> ('e, 'n) engine \<Rightarrow> string \<Rightarrow> 'e
     \<Rightarrow> (string + 'n row list) \<times> 'e" where
  "executeSQL_module conn initDatabase runQuery sql e =
     (if \<not> conn e then
        (case initDatabase e of
           (Inl err, e') \<Rightarrow> (Inl err, e')
         | (Inr u, e') \<Rightarrow> executeSQL runQuery sql e')
      else executeSQL runQuery sql e)"

text \<open>
  What a handler answers: \<^verbatim>\<open>res.status(400).json({ error })\<close>,
  \<^verbatim>\<open>res.json({ data: results, error: null })\<close> or
  \<^verbatim>\<open>res.json({ data: null, error: error.message })\<close>.
\<close>

datatype 'n response = Status400 string | Json_data "'n row list" | Json_error string

text \<open>The handler of \<^verbatim>\<open>/api/query/local\<close>. The request's text is a string.\<close>

definition query_local :: "('e, 'n) engine \<Rightarrow> string \<Rightarrow> 'e \<Rightarrow> 'n response \<times> 'e" where
  "query_local runQuery sql e =
     (if sql = [] then (Status400 ''SQL query is required'', e)
      else case executeSQL runQuery sql e of
             (Inl msg, e') \<Rightarrow> (Json_error msg, e')
           | (Inr rows, e') \<Rightarrow> (Json_data rows, e'))"

definition no_results_message :: "string \<Rightarrow> string" where
  "no_results_message nodeLabel = ''Node '' @ [DQ] @ nodeLabel @ [DQ] @ '' has no results''"

text \<open>
  The first loop of the handler of \<^verbatim>\<open>/api/query/local/with-references\<close>, over the
  matches. The state of the loop is the list \<^verbatim>\<open>tempTables\<close> and the engine. The name
  is pushed before the statement runs. A \<^verbatim>\<open>throw\<close>, the handler's own or the
  engine's, ends the loop with \<^const>\<open>Inl\<close>. The request's \<^verbatim>\<open>references\<close> object is a
  map from labels to entries; the label \<^verbatim>\<open>__proto__\<close>, which an object of the host
  language does not keep as a key of its own, is outside the model.
\<close>

fun create_loop ::
  "('e, 'n) engine \<Rightarrow> 'n host \<Rightarrow> (string \<rightharpoonup> 'n node) \<Rightarrow> (string \<times> string) list
     \<Rightarrow> string list \<Rightarrow> 'e \<Rightarrow> (string + unit) \<times> string list \<times> 'e" where
  "create_loop runQuery host references [] tempTables e = (Inr (), tempTables, e)"
| "create_loop runQuery host references (m # ms) tempTables e =
     (let nodeLabel = trim (snd m)
      in case references nodeLabel of
           None \<Rightarrow> (Inl (no_results_message nodeLabel), tempTables, e)
         | Some referencedData \<Rightarrow>
             (case results referencedData of
                None \<Rightarrow> (Inl (no_results_message nodeLabel), tempTables, e)
              | Some [] \<Rightarrow> (Inl (no_results_message nodeLabel), tempTables, e)
              | Some (r # rs) \<Rightarrow>
                  (case runQuery e (createTableSQL host (tempTableName nodeLabel) (r # rs)) of
                     (Inl err, e') \<Rightarrow> (Inl err, tempTables @ [tempTableName nodeLabel], e')
                   | (Inr rows, e') \<Rightarrow>
                       create_loop runQuery host references ms
                         (tempTables @ [tempTableName nodeLabel]) e')))"

text \<open>
  The cleanup loop, which stands twice in the handler, after the query and in the
  \<^verbatim>\<open>catch\<close> block: one \<^verbatim>\<open>DROP TABLE\<close> for every entry of \<^verbatim>\<open>tempTables\<close>, each
  in a \<^verbatim>\<open>try\<close> whose \<^verbatim>\<open>catch\<close> is empty, so that the result of the statement is
  dropped and only the engine's new state remains.
\<close>

fun cleanup :: "('e, 'n) engine \<Rightarrow> string list \<Rightarrow> 'e \<Rightarrow> 'e" where
  "cleanup runQuery [] e = e"
| "cleanup runQuery (tempTable # ts) e =
     cleanup runQuery ts (snd (runQuery e (''DROP TABLE '' @ tempTable)))"

text \<open>
  The inner \<^verbatim>\<open>try\<close> block up to the cleanup: the creation loop, the rewriting and the
  execution. It gives the outcome, \<^verbatim>\<open>tempTables\<close> and the engine at the moment the
  cleanup starts.
\<close>

definition try_block ::
  "('e, 'n) engine \<Rightarrow> 'n host \<Rightarrow> (string \<rightharpoonup> 'n node) \<Rightarrow> string \<Rightarrow> 'e
     \<Rightarrow> (string + 'n row list) \<times> string list \<times> 'e" where
  "try_block runQuery host references sql e =
     (let matches = matchAll sql
      in case create_loop runQuery host references matches [] e of
           (Inl err, tempTables, e1) \<Rightarrow> (Inl err, tempTables, e1)
         | (Inr u, tempTables, e1) \<Rightarrow>
             (case executeSQL runQuery (modifiedSQL sql matches) e1 of
                (r, e2) \<Rightarrow> (r, tempTables, e2)))"

definition query_local_with_references ::
  "('e, 'n) engine \<Rightarrow> 'n host \<Rightarrow> (string \<rightharpoonup> 'n node) \<Rightarrow> string \<Rightarrow> 'e
     \<Rightarrow> 'n response \<times> 'e" where
  "query_local_with_references runQuery host references sql e =
     (if sql = [] then (Status400 ''SQL query is required'', e)
      else case try_block runQuery host references sql e of
             (Inr rows, tempTables, e1) \<Rightarrow> (Json_data rows, cleanup runQuery tempTables e1)
           | (Inl err, tempTables, e1) \<Rightarrow> (Json_error err, cleanup runQuery tempTables e1))"

section \<open>The client\<close>

definition not_found_message :: "string \<Rightarrow> string" where
  "not_found_message nodeLabel = ''Node with label '' @ [DQ] @ nodeLabel @ [DQ] @ '' not found''"

text \<open>
  The loop of \<^verbatim>\<open>executeSQLWithReferences\<close> that builds the \<^verbatim>\<open>references\<close> object
  from the lookup \<^verbatim>\<open>getNodeByLabel\<close>, which answers \<^verbatim>\<open>null\<close> (\<^const>\<open>None\<close>) or an
  entry.
\<close>

fun resolve_loop ::
  "(string \<Rightarrow> 'n node option) \<Rightarrow> (string \<times> string) list \<Rightarrow> (string \<rightharpoonup> 'n node)
     \<Rightarrow> string + (string \<rightharpoonup> 'n node)" where
  "resolve_loop getNodeByLabel [] references = Inr references"
| "resolve_loop getNodeByLabel (m # ms) references =
     (let nodeLabel = trim (snd m)
      in case getNodeByLabel nodeLabel of
           None \<Rightarrow> Inl (not_found_message nodeLabel)
         | Some referencedNode \<Rightarrow>
             (case results referencedNode of
                None \<Rightarrow> Inl (no_results_message nodeLabel)
              | Some [] \<Rightarrow> Inl (no_results_message nodeLabel)
              | Some (r # rs) \<Rightarrow>
                  resolve_loop getNodeByLabel ms (references(nodeLabel \<mapsto> referencedNode))))"

text \<open>
  What the client makes of the server's answer: a non-empty \<^verbatim>\<open>error\<close> is thrown and
  thrown again with the same message, otherwise \<^verbatim>\<open>result.data || []\<close> is returned.
  A failure of the transport is not modelled.
\<close>

fun decode :: "'n response \<Rightarrow> string + 'n row list" where
  "decode (Status400 msg) = (if msg = [] then Inr [] else Inl msg)"
| "decode (Json_error msg) = (if msg = [] then Inr [] else Inl msg)"
| "decode (Json_data rows) = Inr rows"

text \<open>
  The two functions of the client's database module, with the server behind them: the
  engine state they take and return is the server's.
\<close>

definition client_executeSQL :: "('e, 'n) engine \<Rightarrow> string \<Rightarrow> 'e \<Rightarrow> (string + 'n row list) \<times> 'e" where
  "client_executeSQL runQuery sql e =
     (let trimmedSQL = trim sql
      in if trimmedSQL = [] then (Inl ''Empty query'', e)
         else case query_local runQuery trimmedSQL e of (resp, e') \<Rightarrow> (decode resp, e'))"

definition executeSQLWithReferences ::
  "('e, 'n) engine \<Rightarrow> 'n host \<Rightarrow> (string \<Rightarrow> 'n node option) \<Rightarrow> string \<Rightarrow> 'e
     \<Rightarrow> (string + 'n row list) \<times> 'e" where
  "executeSQLWithReferences runQuery host getNodeByLabel sql e =
     (let trimmedSQL = trim sql
      in if trimmedSQL = [] then (Inl ''Empty query'', e)
         else case resolve_loop getNodeByLabel (matchAll trimmedSQL) Map.empty of
                Inl msg \<Rightarrow> (Inl msg, e)
              | Inr references \<Rightarrow>
                  (case query_local_with_references runQuery host references trimmedSQL e of
                     (resp, e') \<Rightarrow> (decode resp, e')))"

section \<open>Observing the engine\<close>

text \<open>
  An engine that also records every statement it is handed. The functions above are
  generic in the engine, so running them on \<open>traced runQuery\<close> shows the statements
  they issue, in order.
\<close>

definition traced :: "('e, 'n) engine \<Rightarrow> ('e \<times> string list, 'n) engine" where
  "traced runQuery s q =
     (case runQuery (fst s) q of (r, e') \<Rightarrow> (r, (e', snd s @ [q])))"

text \<open>
  What is assumed of an engine where a claim speaks of the relations it holds: \<open>tables\<close>
  reads the set of relation names off a state; creating a relation under an identifier
  adds the name when the statement succeeds and changes nothing when it fails; dropping
  removes the name.
\<close>

definition is_identifier :: "string \<Rightarrow> bool" where
  "is_identifier n = (n \<noteq> [] \<and> list_all is_word_char n)"

definition catalog_semantics :: "('e, 'n) engine \<Rightarrow> ('e \<Rightarrow> string set) \<Rightarrow> bool" where
  "catalog_semantics runQuery tables =
     (\<forall>e n rest. is_identifier n \<longrightarrow>
        (case runQuery e (''CREATE TEMP TABLE '' @ n @ '' AS '' @ rest) of
           (Inl err, e') \<Rightarrow> tables e' = tables e
         | (Inr rows, e') \<Rightarrow> tables e' = insert n (tables e))
        \<and> tables (snd (runQuery e (''DROP TABLE '' @ n))) = tables e - {n})"

text \<open>
  A small engine with these semantics, for running the handlers on concrete requests.
  Its state is the list of its relations. Creating a relation that exists fails, as
  does dropping one that does not; any other statement succeeds with no rows and
  leaves the relations as they are.
\<close>

definition catalog_run :: "(string list, 'n) engine" where
  "catalog_run e q =
     (if prefix ''CREATE TEMP TABLE '' q then
        (let n = takeWhile (\<lambda>c. c \<noteq> CHR '' '') (drop 18 q)
         in if n \<in> set e then (Inl (''Table '' @ n @ '' already exists''), e)
            else (Inr [], e @ [n]))
      else if prefix ''DROP TABLE '' q then
        (let n = drop 11 q
         in if n \<in> set e then (Inr [], removeAll n e)
            else (Inl (''Table '' @ n @ '' does not exist''), e))
      else (Inr [], e))"

text \<open>A span of the scanner: an opening brace and then a unit other than the closing brace.\<close>

definition is_span :: "string \<Rightarrow> bool" where
  "is_span r = (case r of [] \<Rightarrow> False | c # b \<Rightarrow> c = LBRACE \<and> b \<noteq> [] \<and> hd b \<noteq> RBRACE)"

section \<open>Notions used in the statements\<close>

text \<open>The relation name that the handler derives for a match.\<close>

abbreviation relation_name :: "string \<times> string \<Rightarrow> string" where
  "relation_name m \<equiv> tempTableName (trim (snd m))"

text \<open>
  The check that both the client's loop and the server's loop make on an entry, read
  positively: the entry is there and its result set has a first row.
\<close>

definition has_results :: "'n node option \<Rightarrow> bool" where
  "has_results referencedData =
     (case referencedData of
        None \<Rightarrow> False
      | Some d \<Rightarrow> (case results d of None \<Rightarrow> False | Some [] \<Rightarrow> False | Some (r # rs) \<Rightarrow> True))"

text \<open>A statement that creates the relation \<open>n\<close>.\<close>

definition creates :: "string \<Rightarrow> string \<Rightarrow> bool" where
  "creates n q = prefix (''CREATE TEMP TABLE '' @ n @ '' AS '') q"

text \<open>
  What a cell of a \<^verbatim>\<open>VALUES\<close> list holds for the engine: a bare token, which the engine
  reads as a number or as \<^verbatim>\<open>NULL\<close>, or a string literal with the string it denotes.
\<close>

datatype cell = Bare string | Quoted string




text \<open>
  A reader of the \<^verbatim>\<open>VALUES\<close> list of a statement, as SQL reads it: rows in
  parentheses, separated by a comma and a line break; cells separated by a comma and a
  blank; in a string literal two single quotes in a row stand for one quote of the
  string and a single quote alone ends the literal. The reader goes through the text
  once; its arguments are the place it is at, the token and the cells and rows read so
  far. It gives the rows and the text behind the closing parenthesis of the list, or
  nothing for a text that is not such a list.
\<close>

datatype mode = Row_start | Cell_start | In_bare | In_quoted | Quote_seen | Sep_seen | Row_end | Row_sep

fun read_values :: "mode \<Rightarrow> string \<Rightarrow> cell list \<Rightarrow> cell list list \<Rightarrow> string
    \<Rightarrow> (cell list list \<times> string) option" where
  "read_values m tok cells rows [] = None"
| "read_values Row_start tok cells rows (c # s) =
     (if c = CHR ''('' then read_values Cell_start [] [] rows s else None)"
| "read_values Cell_start tok cells rows (c # s) =
     (if c = SQ then read_values In_quoted [] cells rows s
      else if c = CHR '','' then read_values Sep_seen [] (cells @ [Bare []]) rows s
      else if c = CHR '')'' then read_values Row_end [] [] (rows @ [cells @ [Bare []]]) s
      else read_values In_bare [c] cells rows s)"
| "read_values In_bare tok cells rows (c # s) =
     (if c = CHR '','' then read_values Sep_seen [] (cells @ [Bare tok]) rows s
      else if c = CHR '')'' then read_values Row_end [] [] (rows @ [cells @ [Bare tok]]) s
      else read_values In_bare (tok @ [c]) cells rows s)"
| "read_values In_quoted tok cells rows (c # s) =
     (if c = SQ then read_values Quote_seen tok cells rows s
      else read_values In_quoted (tok @ [c]) cells rows s)"
| "read_values Quote_seen tok cells rows (c # s) =
     (if c = SQ then read_values In_quoted (tok @ [SQ]) cells rows s
      else if c = CHR '','' then read_values Sep_seen [] (cells @ [Quoted tok]) rows s
      else if c = CHR '')'' then read_values Row_end [] [] (rows @ [cells @ [Quoted tok]]) s
      else None)"
| "read_values Sep_seen tok cells rows (c # s) =
     (if c = CHR '' '' then read_values Cell_start [] cells rows s else None)"
| "read_values Row_end tok cells rows (c # s) =
     (if c = CHR '','' then read_values Row_sep [] [] rows s
      else if c = CHR '')'' then Some (rows, s)
      else None)"
| "read_values Row_sep tok cells rows (c # s) =
     (if c = NL then read_values Row_start [] [] rows s else None)"

text \<open>The reader of the column aliases: names in double quotes, separated by a comma and a blank.\<close>

datatype amode = A_start | A_in | A_after | A_sep

fun read_aliases :: "amode \<Rightarrow> string \<Rightarrow> string list \<Rightarrow> string \<Rightarrow> (string list \<times> string) option" where
  "read_aliases m tok cols [] = None"
| "read_aliases A_start tok cols (c # s) =
     (if c = DQ then read_aliases A_in [] cols s else None)"
| "read_aliases A_in tok cols (c # s) =
     (if c = DQ then read_aliases A_after [] (cols @ [tok]) s
      else read_aliases A_in (tok @ [c]) cols s)"
| "read_aliases A_after tok cols (c # s) =
     (if c = CHR '','' then read_aliases A_sep [] cols s
      else if c = CHR '')'' then Some (cols, s)
      else None)"
| "read_aliases A_sep tok cols (c # s) =
     (if c = CHR '' '' then read_aliases A_start [] cols s else None)"

text \<open>
  The reader of a whole statement: the name of the relation, the column aliases and the
  rows of cells.
\<close>

definition read_statement :: "string \<Rightarrow> (string \<times> string list \<times> cell list list) option" where
  "read_statement q =
     (if prefix ''CREATE TEMP TABLE '' q then
        (let q1 = drop (length ''CREATE TEMP TABLE '') q;
             name = takeWhile (\<lambda>c. c \<noteq> CHR '' '') q1;
             q2 = dropWhile (\<lambda>c. c \<noteq> CHR '' '') q1
         in if prefix '' AS SELECT * FROM (VALUES '' q2 then
              (case read_values Row_start [] [] [] (drop (length '' AS SELECT * FROM (VALUES '') q2) of
                 None \<Rightarrow> None
               | Some (rows, q3) \<Rightarrow>
                   if prefix '' AS t('' q3 then
                     (case read_aliases A_start [] [] (drop (length '' AS t('') q3) of
                        None \<Rightarrow> None
                      | Some (cols, q4) \<Rightarrow> if q4 = [] then Some (name, cols, rows) else None)
                   else None)
            else None)
      else None)"






text \<open>An engine in which every \<^verbatim>\<open>DROP TABLE\<close> statement fails and changes nothing.\<close>

definition failing_drops :: "('e, 'n) engine \<Rightarrow> ('e, 'n) engine" where
  "failing_drops runQuery e q =
     (if prefix ''DROP TABLE '' q then (Inl ''drop failed'', e) else runQuery e q)"

text \<open>
  A concrete host for concrete requests. In them a number is written as its decimal
  text, so that printing is the identity. The inherited members are those of
  \<^verbatim>\<open>Object.prototype\<close>, with the texts that Node prints for them.
\<close>

definition node_host :: "string host" where
  "node_host =
     \<lparr>number_text = (\<lambda>s. s),
      inherited_text = (\<lambda>col.
        if col = ''__proto__'' then Some ''[object Object]''
        else if col = ''constructor'' then Some ''function Object() { [native code] }''
        else if col \<in> set [''toString'', ''toLocaleString'', ''valueOf'', ''hasOwnProperty'',
                  ''isPrototypeOf'', ''propertyIsEnumerable'', ''__defineGetter__'',
                  ''__defineSetter__'', ''__lookupGetter__'', ''__lookupSetter__'']
        then Some (''function '' @ col @ ''() { [native code] }'')
        else None)\<rparr>"

text \<open>Concrete requests.\<close>

definition sales_rows :: "string row list" where
  "sales_rows =
     [[(''city'', JStr ''NY''), (''total'', JNum ''100'')],
      [(''city'', JStr ''LA''), (''total'', JNum ''50'')]]"


definition sparse_rows :: "string row list" where
  "sparse_rows = [[(''toString'', JNum ''1'')], []]"

definition sales_references :: "string \<rightharpoonup> string node" where
  "sales_references = [''sales'' \<mapsto> \<lparr>results = Some sales_rows, label = ''sales''\<rparr>]"

text \<open>A lookup that knows the node \<open>sales\<close>, which has not been run.\<close>

definition unrun_node :: "string \<Rightarrow> string node option" where
  "unrun_node l = (if l = ''sales'' then Some \<lparr>results = None, label = ''sales''\<rparr> else None)"


definition self_join_query :: string where
  "self_join_query = ''SELECT a.* FROM {sales} a JOIN {sales} b ON a.city=b.city''"

definition variant_query :: string where
  "variant_query = ''SELECT * FROM {sales} a, { sales } b''"

definition filter_query :: string where
  "filter_query = ''SELECT * FROM {sales} WHERE total > 60''"

definition city_query :: string where
  "city_query = ''SELECT city FROM {sales}''"

definition ghost_query :: string where
  "ghost_query = ''SELECT * FROM {sales}, {ghost}''"

definition plain_query :: string where
  "plain_query = ''SELECT city FROM users''"

section \<open>The scanner and the rewriter\<close>

lemma matchAll_shape:
  "(r, b) \<in> set (matchAll s) \<Longrightarrow> r = LBRACE # b @ [RBRACE] \<and> b \<noteq> [] \<and> RBRACE \<notin> set b"
proof (induction s rule: matchAll.induct)
  case 1
  then show ?case by simp
next
  case (2 c cs)
  then show ?case
    by (auto split: if_splits dest: set_takeWhileD)
qed

lemma matchAll_is_span: "m \<in> set (matchAll s) \<Longrightarrow> is_span (fst m)"
proof -
  assume "m \<in> set (matchAll s)"
  then have "(fst m, snd m) \<in> set (matchAll s)" by simp
  from matchAll_shape [OF this] obtain x xs where "snd m = x # xs" "fst m = LBRACE # snd m @ [RBRACE]" "x \<noteq> RBRACE"
    by (cases "snd m") auto
  then show ?thesis by (simp add: is_span_def)
qed

lemma is_word_char_not_brace: "is_word_char c \<Longrightarrow> c \<noteq> LBRACE \<and> c \<noteq> RBRACE \<and> c \<noteq> CHR ''$''"
  by (auto simp: is_word_char_def)

lemma tempTableName_word: "c \<in> set (tempTableName l) \<Longrightarrow> is_word_char c"
  by (auto simp: tempTableName_def is_word_char_def)

lemma replace_first_skip:
  "is_span r \<Longrightarrow> c \<noteq> LBRACE \<Longrightarrow> replace_first r rep (c # t) = c # replace_first r rep t"
  by (auto simp: is_span_def split: list.splits)

lemma modifiedSQL_Nil [simp]: "modifiedSQL s [] = s"
  by (simp add: modifiedSQL_def)

lemma modifiedSQL_Cons:
  "modifiedSQL s (m # ms) = modifiedSQL (replace_first (fst m) (tempTableName (trim (snd m))) s) ms"
  by (simp add: modifiedSQL_def)

lemma modifiedSQL_skip:
  "\<forall>m\<in>set ms. is_span (fst m) \<Longrightarrow> c \<noteq> LBRACE \<Longrightarrow> modifiedSQL (c # t) ms = c # modifiedSQL t ms"
  by (induction ms arbitrary: t) (simp_all add: modifiedSQL_Cons replace_first_skip del: replace_first.simps)

lemma replace_first_skip2:
  "is_span r \<Longrightarrow> replace_first r rep (LBRACE # RBRACE # t) = LBRACE # RBRACE # replace_first r rep t"
  by (cases r) (auto simp: is_span_def split: list.splits  simp: neq_Nil_conv)

lemma modifiedSQL_skip2:
  "\<forall>m\<in>set ms. is_span (fst m) \<Longrightarrow> modifiedSQL (LBRACE # RBRACE # t) ms = LBRACE # RBRACE # modifiedSQL t ms"
  by (induction ms arbitrary: t) (simp_all add: modifiedSQL_Cons replace_first_skip2 del: replace_first.simps)

lemma modifiedSQL_skip_append:
  "\<forall>m\<in>set ms. is_span (fst m) \<Longrightarrow> LBRACE \<notin> set n \<Longrightarrow> modifiedSQL (n @ t) ms = n @ modifiedSQL t ms"
  by (induction n) (auto simp: modifiedSQL_skip)

lemma dropWhile_no_rbrace: "RBRACE \<notin> set s \<Longrightarrow> dropWhile (\<lambda>x. x \<noteq> RBRACE) s = []"
  by (induction s) auto

lemma matchAll_no_rbrace: "RBRACE \<notin> set s \<Longrightarrow> matchAll s = []"
  by (induction s) (auto simp: dropWhile_no_rbrace)

lemma rewrite_spans_no_rbrace: "RBRACE \<notin> set s \<Longrightarrow> rewrite_spans s = s"
  by (induction s) (auto simp: dropWhile_no_rbrace)

lemma dropWhile_eq_Nil_no_rbrace: "dropWhile (\<lambda>x. x \<noteq> RBRACE) s = [] \<Longrightarrow> RBRACE \<notin> set s"
  by (induction s) (auto split: if_splits)

lemma replace_first_prefix: "r \<noteq> [] \<Longrightarrow> replace_first r rep (r @ t) = rep @ t"
  by (cases r) auto

lemma modifiedSQL_matchAll: "modifiedSQL s (matchAll s) = rewrite_spans s"
proof (induction s rule: matchAll.induct)
  case 1
  show ?case by simp
next
  case (2 c cs)
  let ?b = "takeWhile (\<lambda>x. x \<noteq> RBRACE) cs"
  let ?d = "dropWhile (\<lambda>x. x \<noteq> RBRACE) cs"
  show ?case
  proof (cases "c = LBRACE \<and> ?b \<noteq> [] \<and> ?d \<noteq> []")
    case True
    then have hd: "hd ?d = RBRACE"
      using hd_dropWhile [of "\<lambda>x. x \<noteq> RBRACE" cs] by simp
    with True have d: "?d = RBRACE # tl ?d"
      by (cases ?d) auto
    have "cs = ?b @ ?d" by simp
    with d have cs: "c # cs = (c # ?b @ [RBRACE]) @ tl ?d"
      by (metis append.assoc append_Cons append_Nil)
    have spans: "\<forall>m\<in>set (matchAll (tl ?d)). is_span (fst m)"
      by (simp add: matchAll_is_span)
    have nob: "LBRACE \<notin> set (tempTableName (trim ?b))"
      using tempTableName_word is_word_char_not_brace by blast
    have "modifiedSQL (c # cs) (matchAll (c # cs))
        = modifiedSQL (replace_first (c # ?b @ [RBRACE]) (tempTableName (trim ?b)) (c # cs)) (matchAll (tl ?d))"
      using True by (simp add: modifiedSQL_Cons)
    also have "replace_first (c # ?b @ [RBRACE]) (tempTableName (trim ?b)) (c # cs)
        = tempTableName (trim ?b) @ tl ?d"
      using replace_first_prefix [of "c # ?b @ [RBRACE]" "tempTableName (trim ?b)" "tl ?d"] cs
      by (simp del: replace_first.simps)
    also have "modifiedSQL (tempTableName (trim ?b) @ tl ?d) (matchAll (tl ?d))
        = tempTableName (trim ?b) @ modifiedSQL (tl ?d) (matchAll (tl ?d))"
      using spans nob by (rule modifiedSQL_skip_append)
    also have "\<dots> = rewrite_spans (c # cs)"
      using True "2.IH"(1) by simp
    finally show ?thesis .
  next
    case False
    have spans: "\<forall>m\<in>set (matchAll cs). is_span (fst m)"
      by (simp add: matchAll_is_span)
    from False have ih: "modifiedSQL cs (matchAll cs) = rewrite_spans cs"
      using "2.IH"(2) by blast
    from False have m: "matchAll (c # cs) = matchAll cs" and r: "rewrite_spans (c # cs) = c # rewrite_spans cs"
      by auto
    consider (a) "c \<noteq> LBRACE" | (b) "c = LBRACE" "?d = []" | (c) "c = LBRACE" "?d \<noteq> []" "?b = []"
      using False by blast
    then show ?thesis
    proof cases
      case a
      then show ?thesis using m r ih spans by (simp add: modifiedSQL_skip)
    next
      case b
      then have "RBRACE \<notin> set cs" by (simp add: dropWhile_eq_Nil_no_rbrace)
      then show ?thesis using m r by (simp add: matchAll_no_rbrace rewrite_spans_no_rbrace)
    next
      case c
      then obtain cs' where cs': "cs = RBRACE # cs'"
        by (cases cs) (auto split: if_splits)
      have "modifiedSQL (LBRACE # RBRACE # cs') (matchAll cs) = LBRACE # RBRACE # modifiedSQL cs' (matchAll cs)"
        using spans by (rule modifiedSQL_skip2)
      also have "RBRACE # modifiedSQL cs' (matchAll cs) = modifiedSQL cs (matchAll cs)"
        using spans cs' by (simp add: modifiedSQL_skip)
      finally show ?thesis using m r ih c cs' by simp
    qed
  qed
qed

lemma matchAll_skip_append: "LBRACE \<notin> set n \<Longrightarrow> matchAll (n @ t) = matchAll t"
  by (induction n) auto

lemma matchAll_rewrite_spans: "matchAll (rewrite_spans s) = []"
proof (induction s rule: rewrite_spans.induct)
  case 1
  show ?case by simp
next
  case (2 c cs)
  let ?b = "takeWhile (\<lambda>x. x \<noteq> RBRACE) cs"
  let ?d = "dropWhile (\<lambda>x. x \<noteq> RBRACE) cs"
  show ?case
  proof (cases "c = LBRACE \<and> ?b \<noteq> [] \<and> ?d \<noteq> []")
    case True
    have nob: "LBRACE \<notin> set (tempTableName (trim ?b))"
      using tempTableName_word is_word_char_not_brace by blast
    show ?thesis using True "2.IH"(1) nob by (simp add: matchAll_skip_append)
  next
    case False
    from False have ih: "matchAll (rewrite_spans cs) = []"
      using "2.IH"(2) by blast
    from False have r: "rewrite_spans (c # cs) = c # rewrite_spans cs"
      by auto
    consider (a) "c \<noteq> LBRACE" | (b) "c = LBRACE" "?d = []" | (c) "c = LBRACE" "?d \<noteq> []" "?b = []"
      using False by blast
    then show ?thesis
    proof cases
      case a
      then show ?thesis using r ih by simp
    next
      case b
      then have "RBRACE \<notin> set cs" by (simp add: dropWhile_eq_Nil_no_rbrace)
      then show ?thesis using r b by (simp add: rewrite_spans_no_rbrace dropWhile_no_rbrace matchAll_no_rbrace)
    next
      case c
      then obtain cs' where cs': "cs = RBRACE # cs'"
        by (cases cs) (auto split: if_splits)
      then have "rewrite_spans cs = RBRACE # rewrite_spans cs'" by simp
      then show ?thesis using r ih c by simp
    qed
  qed
qed

text \<open>
  Claim C6. For every query text, the handler's rewriting loop, run over the scanned
  matches, replaces every scanned span (repeats and white-space variants of a label
  included) exactly once by the relation name of its label and changes nothing else:
  its result is the span-wise rewriting \<^const>\<open>rewrite_spans\<close>. A scan of the rewritten
  text finds no reference.
\<close>

theorem rewriter_replaces_every_span:
  "modifiedSQL sql (matchAll sql) = rewrite_spans sql
   \<and> matchAll (modifiedSQL sql (matchAll sql)) = []"
  by (simp add: modifiedSQL_matchAll matchAll_rewrite_spans)

section \<open>Relation names\<close>

lemma is_identifier_tempTableName: "is_identifier (tempTableName l)"
  by (auto simp: is_identifier_def tempTableName_def list_all_iff is_word_char_def)

lemma createTableSQL_shape:
  "\<exists>rest. createTableSQL host name (r # rs) = ''CREATE TEMP TABLE '' @ name @ '' AS '' @ rest"
  by (simp add: Let_def)

declare createTableSQL.simps [simp del]

lemma creates_createTableSQL: "creates name (createTableSQL host name (r # rs))"
proof -
  obtain rest where "createTableSQL host name (r # rs) = ''CREATE TEMP TABLE '' @ name @ '' AS '' @ rest"
    using createTableSQL_shape by blast
  then show ?thesis by (simp add: creates_def)
qed

text \<open>
  The names in \<^verbatim>\<open>tempTables\<close> after the creation loop are the names of an initial
  stretch of the matches, in their order, behind the names the loop started with.
\<close>

lemma create_loop_names:
  "\<exists>k\<le>length ms. fst (snd (create_loop run host refs ms tt e)) = tt @ map relation_name (take k ms)
      \<and> (fst (create_loop run host refs ms tt e) = Inr () \<longrightarrow> k = length ms)"
proof (induction ms arbitrary: tt e)
  case Nil
  show ?case by simp
next
  case (Cons m ms)
  show ?case
  proof (cases "refs (trim (snd m))")
    case None
    then show ?thesis by (intro exI [of _ 0]) simp
  next
    case (Some d)
    show ?thesis
    proof (cases "results d")
      case None
      with Some show ?thesis by (intro exI [of _ 0]) simp
    next
      case rs: (Some rows)
      show ?thesis
      proof (cases rows)
        case Nil
        with Some rs show ?thesis by (intro exI [of _ 0]) simp
      next
        case (Cons r rs')
        obtain res e' where run: "run e (createTableSQL host (relation_name m) (r # rs')) = (res, e')"
          by (cases "run e (createTableSQL host (relation_name m) (r # rs'))")
        show ?thesis
        proof (cases res)
          case (Inl err)
          with Some rs Cons run show ?thesis by (intro exI [of _ 1]) simp
        next
          case (Inr rows')
          from Cons.IH [of "tt @ [relation_name m]" e']
          obtain k where "k \<le> length ms"
            "fst (snd (create_loop run host refs ms (tt @ [relation_name m]) e')) = (tt @ [relation_name m]) @ map relation_name (take k ms)"
            "fst (create_loop run host refs ms (tt @ [relation_name m]) e') = Inr () \<longrightarrow> k = length ms"
            by blast
          with Some rs Cons run Inr show ?thesis by (intro exI [of _ "Suc k"]) simp
        qed
      qed
    qed
  qed
qed

lemma create_loop_names_subset:
  "set (fst (snd (create_loop run host refs ms tt e))) \<subseteq> set tt \<union> relation_name ` set ms"
proof -
  obtain k where "fst (snd (create_loop run host refs ms tt e)) = tt @ map relation_name (take k ms)"
    using create_loop_names [of ms run host refs tt e] by blast
  then show ?thesis
    using set_take_subset [of k ms] by auto
qed

lemma create_loop_identifiers:
  "list_all is_identifier tt \<Longrightarrow> list_all is_identifier (fst (snd (create_loop run host refs ms tt e)))"
proof -
  assume a: "list_all is_identifier tt"
  obtain k where "fst (snd (create_loop run host refs ms tt e)) = tt @ map relation_name (take k ms)"
    using create_loop_names [of ms run host refs tt e] by blast
  with a show ?thesis
    by (auto simp: list_all_iff is_identifier_tempTableName)
qed

lemma try_block_names:
  "set (fst (snd (try_block run host refs sql e))) \<subseteq> relation_name ` set (matchAll sql)"
proof -
  obtain res tt e1 where cl: "create_loop run host refs (matchAll sql) [] e = (res, tt, e1)"
    by (metis surj_pair)
  then have "fst (snd (try_block run host refs sql e)) = tt"
    by (cases res) (auto simp: try_block_def split: prod.splits)
  with create_loop_names_subset [of run host refs "matchAll sql" "[]" e] cl show ?thesis by simp
qed

text \<open>
  Claim C3, as amended. For every label the generated relation name is the marker
  \<^verbatim>\<open>temp_\<close> followed by the sanitized label: as long as the label plus five units, with
  every unit of the class \<^verbatim>\<open>[A-Za-z0-9_]\<close> kept in its place and every other unit
  replaced by an underscore. There is no request-scoped suffix: every name a request
  records is the name of the trimmed label of one of its scanned references, whatever
  the engine, its state and the submitted results are, so two requests that reference
  the same label produce the same relation name.
\<close>

theorem relation_name_from_label_alone:
  "take 5 (tempTableName l) = ''temp_''
   \<and> length (tempTableName l) = 5 + length l
   \<and> (\<forall>i<length l. tempTableName l ! (5 + i) = (if is_word_char (l ! i) then l ! i else CHR ''_''))
   \<and> set (fst (snd (try_block run host refs sql e)))
        \<subseteq> (\<lambda>m. tempTableName (trim (snd m))) ` set (matchAll sql)"
  using try_block_names [of run host refs sql e]
  by (simp add: tempTableName_def nth_append)

text \<open>The label \<^verbatim>\<open>my sales\<close>: the blank at index 2 becomes an underscore, the letter behind it stays.\<close>

theorem relation_name_from_label_alone_witness:
  "length ''my sales'' = 8 \<and> tempTableName ''my sales'' ! (5 + 2) = CHR ''_''
   \<and> tempTableName ''my sales'' ! (5 + 3) = CHR ''s''"
proof -
  have 2: "(2::nat) < length ''my sales''" and 3: "(3::nat) < length ''my sales''" by simp_all
  from relation_name_from_label_alone [of "''my sales''" catalog_run node_host sales_references filter_query "[]"]
  have "\<forall>i<length ''my sales''. tempTableName ''my sales'' ! (5 + i)
          = (if is_word_char (''my sales'' ! i) then ''my sales'' ! i else CHR ''_'')"
    by blast
  with 2 3 have "tempTableName ''my sales'' ! (5 + 2) = (if is_word_char (''my sales'' ! 2) then ''my sales'' ! 2 else CHR ''_'')"
    "tempTableName ''my sales'' ! (5 + 3) = (if is_word_char (''my sales'' ! 3) then ''my sales'' ! 3 else CHR ''_'')"
    by blast+
  then show ?thesis by (simp add: is_word_char_def)
qed

text \<open>
  Claim C3 as stated fails: two different requests that reference the label
  \<^verbatim>\<open>sales\<close> both record the relation name \<^verbatim>\<open>temp_sales\<close>.
\<close>

theorem same_name_in_two_requests:
  "fst (snd (try_block catalog_run node_host sales_references filter_query [])) = [''temp_sales'']
   \<and> fst (snd (try_block catalog_run node_host sales_references city_query [])) = [''temp_sales'']"
  by code_simp

section \<open>The creation loop\<close>

lemma create_loop_traced:
  "\<exists>k stmts. k \<le> length ms
    \<and> fst (snd (create_loop (traced run) host refs ms tt (e, log))) = tt @ map relation_name (take k ms)
    \<and> snd (snd (snd (create_loop (traced run) host refs ms tt (e, log)))) = log @ stmts
    \<and> list_all2 (\<lambda>q m. creates (relation_name m) q) stmts (take k ms)
    \<and> (fst (create_loop (traced run) host refs ms tt (e, log)) = Inr () \<longrightarrow> k = length ms)"
proof (induction ms arbitrary: tt e log)
  case Nil
  show ?case by simp
next
  case (Cons m ms)
  show ?case
  proof (cases "refs (trim (snd m))")
    case None
    then show ?thesis by (intro exI [of _ 0] exI [of _ "[]"]) simp
  next
    case (Some d)
    show ?thesis
    proof (cases "results d")
      case None
      with Some show ?thesis by (intro exI [of _ 0] exI [of _ "[]"]) simp
    next
      case rs: (Some rows)
      show ?thesis
      proof (cases rows)
        case Nil
        with Some rs show ?thesis by (intro exI [of _ 0] exI [of _ "[]"]) simp
      next
        case (Cons r rs')
        let ?q = "createTableSQL host (relation_name m) (r # rs')"
        obtain res e' where run: "run e ?q = (res, e')"
          by (cases "run e ?q")
        then have tr: "traced run (e, log) ?q = (res, (e', log @ [?q]))"
          by (simp add: traced_def)
        have cr: "creates (relation_name m) ?q" by (rule creates_createTableSQL)
        show ?thesis
        proof (cases res)
          case (Inl err)
          with Some rs Cons tr cr show ?thesis
            by (intro exI [of _ 1] exI [of _ "[?q]"]) (simp add: Let_def)
        next
          case (Inr rows')
          from Cons.IH [of "tt @ [relation_name m]" e' "log @ [?q]"]
          obtain k stmts where k: "k \<le> length ms"
            and 1: "fst (snd (create_loop (traced run) host refs ms (tt @ [relation_name m]) (e', log @ [?q])))
                 = (tt @ [relation_name m]) @ map relation_name (take k ms)"
            and 2: "snd (snd (snd (create_loop (traced run) host refs ms (tt @ [relation_name m]) (e', log @ [?q]))))
                 = (log @ [?q]) @ stmts"
            and 3: "list_all2 (\<lambda>q m. creates (relation_name m) q) stmts (take k ms)"
            and 4: "fst (create_loop (traced run) host refs ms (tt @ [relation_name m]) (e', log @ [?q])) = Inr () \<longrightarrow> k = length ms"
            by blast
          have eq: "create_loop (traced run) host refs (m # ms) tt (e, log)
                  = create_loop (traced run) host refs ms (tt @ [relation_name m]) (e', log @ [?q])"
            using Some rs Cons tr Inr by (simp add: Let_def)
          show ?thesis
            unfolding eq using k 1 2 3 4 cr
            by (intro exI [of _ "Suc k"] exI [of _ "?q # stmts"]) (simp add: Let_def)
        qed
      qed
    qed
  qed
qed

text \<open>
  Claim C1, as amended. The handler does not group the references by label: its creation
  loop takes the scanned occurrences one by one in the order of the text. For each
  occurrence it reaches it records the relation name of the trimmed label and issues one
  statement creating a relation of that name, so that the recorded names and the issued
  statements are, entry by entry, those of an initial stretch of the occurrences; when
  the loop ends without an error the stretch is the whole list. A label that occurs
  twice is therefore recorded twice, and the creation of its relation is attempted
  twice, under the same name.
\<close>

theorem every_occurrence_materialized:
  "fst (snd (create_loop (traced run) host refs ms [] (e, [])))
     = map relation_name (take (length (fst (snd (create_loop (traced run) host refs ms [] (e, []))))) ms)
   \<and> list_all2 (\<lambda>q m. creates (relation_name m) q)
        (snd (snd (snd (create_loop (traced run) host refs ms [] (e, [])))))
        (take (length (fst (snd (create_loop (traced run) host refs ms [] (e, []))))) ms)
   \<and> (fst (create_loop (traced run) host refs ms [] (e, [])) = Inr ()
        \<longrightarrow> length (fst (snd (create_loop (traced run) host refs ms [] (e, [])))) = length ms)"
proof -
  obtain k stmts where k: "k \<le> length ms"
    and 1: "fst (snd (create_loop (traced run) host refs ms [] (e, []))) = [] @ map relation_name (take k ms)"
    and 2: "snd (snd (snd (create_loop (traced run) host refs ms [] (e, [])))) = [] @ stmts"
    and 3: "list_all2 (\<lambda>q m. creates (relation_name m) q) stmts (take k ms)"
    and 4: "fst (create_loop (traced run) host refs ms [] (e, [])) = Inr () \<longrightarrow> k = length ms"
    using create_loop_traced [of ms run host refs "[]" e "[]"] by blast
  from k 1 have len: "length (fst (snd (create_loop (traced run) host refs ms [] (e, [])))) = k"
    by simp
  show ?thesis
    unfolding len using 1 2 3 4 by simp
qed

theorem every_occurrence_materialized_witness:
  "fst (create_loop (traced catalog_run) node_host sales_references (matchAll filter_query) [] ([], [])) = Inr ()
   \<and> length (fst (snd (create_loop (traced catalog_run) node_host sales_references (matchAll filter_query) [] ([], []))))
       = length (matchAll filter_query)"
proof -
  have h: "fst (create_loop (traced catalog_run) node_host sales_references (matchAll filter_query) [] ([], [])) = Inr ()"
    by code_simp
  from every_occurrence_materialized [of catalog_run node_host sales_references "matchAll filter_query" "[]"] h
  show ?thesis by blast
qed

text \<open>
  Claim C1 as stated fails on the self-join of the specification: the name
  \<^verbatim>\<open>temp_sales\<close> is recorded twice, two statements that create \<^verbatim>\<open>temp_sales\<close> reach
  the engine, and on an engine that refuses to create a relation that exists the
  request ends with that error instead of rows. The white-space variant
  \<^verbatim>\<open>{ sales }\<close> is recorded under the same name again.
\<close>

theorem self_join_materialized_twice:
  "fst (snd (try_block catalog_run node_host sales_references self_join_query []))
     = [''temp_sales'', ''temp_sales'']
   \<and> length (filter (creates ''temp_sales'')
        (snd (snd (query_local_with_references (traced catalog_run) node_host sales_references
                     self_join_query ([], []))))) = 2
   \<and> fst (query_local_with_references catalog_run node_host sales_references self_join_query [])
     = Json_error ''Table temp_sales already exists''
   \<and> fst (snd (try_block catalog_run node_host sales_references variant_query []))
     = [''temp_sales'', ''temp_sales'']"
  by code_simp

section \<open>Cleanup and the relations of the engine\<close>

lemma cleanup_traced:
  "cleanup (traced run) tt (e, log) = (cleanup run tt e, log @ map (\<lambda>t. ''DROP TABLE '' @ t) tt)"
  by (induction tt arbitrary: e log) (auto simp: traced_def split: prod.splits)

lemma sem_create:
  "catalog_semantics run tables \<Longrightarrow> is_identifier n \<Longrightarrow>
    (case run e (''CREATE TEMP TABLE '' @ n @ '' AS '' @ rest) of
       (Inl err, e') \<Rightarrow> tables e' = tables e
     | (Inr rows, e') \<Rightarrow> tables e' = insert n (tables e))"
  unfolding catalog_semantics_def by (erule allE, erule allE, erule allE, erule impE, assumption, erule conjE, assumption)

lemma catalog_create:
  assumes "catalog_semantics run tables" "is_identifier n"
    and "run e (createTableSQL host n (r # rs)) = (res, e')"
  shows "tables e' = (if isl res then tables e else insert n (tables e))"
proof -
  obtain rest where eq: "createTableSQL host n (r # rs) = ''CREATE TEMP TABLE '' @ n @ '' AS '' @ rest"
    using createTableSQL_shape by blast
  have "case run e (createTableSQL host n (r # rs)) of
       (Inl err, e') \<Rightarrow> tables e' = tables e
     | (Inr rows, e') \<Rightarrow> tables e' = insert n (tables e)"
    unfolding eq using assms(1,2) by (rule sem_create)
  then show ?thesis
    unfolding assms(3) by (cases res) simp_all
qed

lemma catalog_drop:
  "catalog_semantics run tables \<Longrightarrow> is_identifier n \<Longrightarrow>
     tables (snd (run e (''DROP TABLE '' @ n))) = tables e - {n}"
  unfolding catalog_semantics_def
  by (erule allE, erule allE, erule allE, erule impE, assumption, erule conjE, assumption)

lemma create_loop_tables:
  assumes "catalog_semantics run tables"
  shows "set tt \<subseteq> set (fst (snd (create_loop run host refs ms tt e)))
     \<and> tables e \<subseteq> tables (snd (snd (create_loop run host refs ms tt e)))
     \<and> tables (snd (snd (create_loop run host refs ms tt e)))
          \<subseteq> tables e \<union> set (fst (snd (create_loop run host refs ms tt e)))"
proof (induction ms arbitrary: tt e)
  case Nil
  show ?case by simp
next
  case (Cons m ms)
  show ?case
  proof (cases "refs (trim (snd m))")
    case None
    then show ?thesis by simp
  next
    case (Some d)
    show ?thesis
    proof (cases "results d")
      case None
      with Some show ?thesis by simp
    next
      case rs: (Some rows)
      show ?thesis
      proof (cases rows)
        case Nil
        with Some rs show ?thesis by simp
      next
        case (Cons r rs')
        obtain res e' where run: "run e (createTableSQL host (relation_name m) (r # rs')) = (res, e')"
          by (cases "run e (createTableSQL host (relation_name m) (r # rs'))")
        from catalog_create [OF assms is_identifier_tempTableName run]
        have t: "tables e' = (if isl res then tables e else insert (relation_name m) (tables e))" .
        show ?thesis
        proof (cases res)
          case (Inl err)
          with Some rs Cons run t show ?thesis by auto
        next
          case (Inr rows')
          with Some rs Cons run
          have eq: "create_loop run host refs (m # ms) tt e
                = create_loop run host refs ms (tt @ [relation_name m]) e'"
            by simp
          from Inr t have t': "tables e' = insert (relation_name m) (tables e)" by simp
          from Cons.IH [of "tt @ [relation_name m]" e'] show ?thesis
            unfolding eq t' by auto
        qed
      qed
    qed
  qed
qed

lemma cleanup_tables:
  assumes "catalog_semantics run tables"
  shows "list_all is_identifier tt \<Longrightarrow> tables (cleanup run tt e) = tables e - set tt"
proof (induction tt arbitrary: e)
  case Nil
  show ?case by simp
next
  case (Cons t ts)
  then have "tables (snd (run e (''DROP TABLE '' @ t))) = tables e - {t}"
    using catalog_drop [OF assms] by simp
  with Cons show ?case by auto
qed

lemma try_block_empty_text:
  "try_block run host refs [] e = (Inl ''Empty query'', [], e)"
  by (simp add: try_block_def executeSQL_def trim_def)

lemma handler_state:
  "snd (query_local_with_references run host refs sql e)
     = cleanup run (fst (snd (try_block run host refs sql e))) (snd (snd (try_block run host refs sql e)))"
proof (cases "sql = []")
  case True
  then show ?thesis by (simp add: query_local_with_references_def try_block_empty_text)
next
  case False
  obtain r tt e2 where tb: "try_block run host refs sql e = (r, tt, e2)"
    by (metis surj_pair)
  show ?thesis
    using False tb by (cases r) (simp_all add: query_local_with_references_def)
qed

lemma handler_drops_traced:
  "snd (snd (query_local_with_references (traced run) host refs sql (e, [])))
     = snd (snd (snd (try_block (traced run) host refs sql (e, []))))
       @ map (\<lambda>t. ''DROP TABLE '' @ t) (fst (snd (try_block (traced run) host refs sql (e, []))))"
proof -
  obtain r tt e2 log where tb: "try_block (traced run) host refs sql (e, []) = (r, tt, (e2, log))"
    by (metis surj_pair)
  show ?thesis
    unfolding handler_state tb by (simp add: cleanup_traced)
qed

lemma try_block_parts:
  "fst (snd (try_block run host refs sql e)) = fst (snd (create_loop run host refs (matchAll sql) [] e))"
proof -
  obtain res tt e1 where cl: "create_loop run host refs (matchAll sql) [] e = (res, tt, e1)"
    by (metis surj_pair)
  then show ?thesis
    by (cases res) (auto simp: try_block_def split: prod.splits)
qed

lemma try_block_identifiers:
  "list_all is_identifier (fst (snd (try_block run host refs sql e)))"
  unfolding try_block_parts
  using create_loop_identifiers [of "[]" run host refs "matchAll sql" e] by simp

lemma handler_tables:
  assumes "catalog_semantics run tables"
  shows "tables (snd (query_local_with_references run host refs sql e))
       = tables (snd (snd (try_block run host refs sql e))) - set (fst (snd (try_block run host refs sql e)))"
  unfolding handler_state
  using cleanup_tables [OF assms try_block_identifiers] .

lemma create_loop_restores:
  assumes cat: "catalog_semantics run tables"
    and fresh: "\<forall>m\<in>set (matchAll sql). relation_name m \<notin> tables e"
  shows "tables (snd (snd (create_loop run host refs (matchAll sql) [] e)))
           - set (fst (snd (try_block run host refs sql e))) = tables e"
proof -
  obtain res tt e1 where cl: "create_loop run host refs (matchAll sql) [] e = (res, tt, e1)"
    by (metis surj_pair)
  from create_loop_tables [OF cat, of "[]" host refs "matchAll sql" e] cl
  have t1: "tables e \<subseteq> tables e1" "tables e1 \<subseteq> tables e \<union> set tt" by simp_all
  from create_loop_names_subset [of run host refs "matchAll sql" "[]" e] cl fresh
  have disj: "set tt \<inter> tables e = {}" by auto
  from t1 disj have "tables e1 - set tt = tables e" by auto
  then show ?thesis unfolding try_block_parts cl by simp
qed

lemma catalog_run_semantics: "catalog_semantics catalog_run set"
proof -
  have tw: "takeWhile (\<lambda>c. c \<noteq> CHR '' '') (n @ '' AS '' @ rest) = n" if "is_identifier n" for n rest
  proof -
    have "\<forall>c\<in>set n. c \<noteq> CHR '' ''"
      using that by (auto simp: is_identifier_def list_all_iff is_word_char_def)
    then show ?thesis by (simp add: takeWhile_append2) 
  qed
  show ?thesis
    unfolding catalog_semantics_def
  proof (intro allI impI conjI)
    fix e :: "string list" and n rest
    assume id: "is_identifier n"
    show "case catalog_run e (''CREATE TEMP TABLE '' @ n @ '' AS '' @ rest) of
            (Inl err, e') \<Rightarrow> set e' = set e
          | (Inr rows, e') \<Rightarrow> set e' = insert n (set e)"
      using tw [OF id, of rest] by (simp add: catalog_run_def)
    show "set (snd (catalog_run e (''DROP TABLE '' @ n))) = set e - {n}"
      by (auto simp: catalog_run_def)
  qed
qed

lemma filter_query_matches: "matchAll filter_query = [(''{sales}'', ''sales'')]"
  by code_simp

text \<open>
  Claim C2, as amended. On every path, success and every failure, the statements that
  the handler hands the engine end with one \<^verbatim>\<open>DROP TABLE\<close> for every entry of
  \<^verbatim>\<open>tempTables\<close>, in order. An entry is made for every match before its relation is
  created, so a label that occurs more than once has more than one entry, and a
  relation whose creation failed has one. On an engine with catalog semantics the
  relations after the request are those at the start of the cleanup without the names
  in \<^verbatim>\<open>tempTables\<close>: none of these names is left, and a relation that was there under
  such a name before the request is gone with them. If none of the names generated for
  the request is present before the request, the creation loop leaves all other
  relations as they were, and the relations after the request are those before it
  exactly when the statement of the user leaves the relations under other names as they are.
\<close>

theorem relations_restored_after_request:
  "snd (snd (query_local_with_references (traced run) host refs sql (e, [])))
     = snd (snd (snd (try_block (traced run) host refs sql (e, []))))
       @ map (\<lambda>t. ''DROP TABLE '' @ t) (fst (snd (try_block (traced run) host refs sql (e, []))))
   \<and> (catalog_semantics run tables \<longrightarrow>
        tables (snd (query_local_with_references run host refs sql e))
          = tables (snd (snd (try_block run host refs sql e)))
              - set (fst (snd (try_block run host refs sql e)))
        \<and> set (fst (snd (try_block run host refs sql e)))
              \<inter> tables (snd (query_local_with_references run host refs sql e)) = {}
        \<and> ((\<forall>m\<in>set (matchAll sql). relation_name m \<notin> tables e) \<longrightarrow>
              tables (snd (snd (create_loop run host refs (matchAll sql) [] e)))
                - set (fst (snd (try_block run host refs sql e))) = tables e
              \<and> (tables (snd (query_local_with_references run host refs sql e)) = tables e
                   \<longleftrightarrow> tables (snd (snd (try_block run host refs sql e)))
                           - set (fst (snd (try_block run host refs sql e)))
                       = tables (snd (snd (create_loop run host refs (matchAll sql) [] e)))
                           - set (fst (snd (try_block run host refs sql e))))))"
proof (intro conjI impI)
  show "snd (snd (query_local_with_references (traced run) host refs sql (e, [])))
     = snd (snd (snd (try_block (traced run) host refs sql (e, []))))
       @ map (\<lambda>t. ''DROP TABLE '' @ t) (fst (snd (try_block (traced run) host refs sql (e, []))))"
    by (rule handler_drops_traced)
next
  assume cat: "catalog_semantics run tables"
  show t: "tables (snd (query_local_with_references run host refs sql e))
          = tables (snd (snd (try_block run host refs sql e)))
              - set (fst (snd (try_block run host refs sql e)))"
    using cat by (rule handler_tables)
  show "set (fst (snd (try_block run host refs sql e)))
              \<inter> tables (snd (query_local_with_references run host refs sql e)) = {}"
    unfolding t by blast
  assume fresh: "\<forall>m\<in>set (matchAll sql). relation_name m \<notin> tables e"
  show r: "tables (snd (snd (create_loop run host refs (matchAll sql) [] e)))
                - set (fst (snd (try_block run host refs sql e))) = tables e"
    using cat fresh by (rule create_loop_restores)
  show "tables (snd (query_local_with_references run host refs sql e)) = tables e
                   \<longleftrightarrow> tables (snd (snd (try_block run host refs sql e)))
                           - set (fst (snd (try_block run host refs sql e)))
                       = tables (snd (snd (create_loop run host refs (matchAll sql) [] e)))
                           - set (fst (snd (try_block run host refs sql e)))"
    unfolding t r ..
qed

text \<open>
  One reference, a relation \<^verbatim>\<open>users\<close> before the request: the relation is created,
  the rewritten query runs, the relation is dropped, and \<^verbatim>\<open>users\<close> alone remains.
\<close>

theorem relations_restored_after_request_witness:
  "set (snd (query_local_with_references catalog_run node_host sales_references filter_query [''users'']))
     = set [''users'']
   \<and> snd (snd (query_local_with_references (traced catalog_run) node_host sales_references filter_query
                  ([''users''], [])))
     = [createTableSQL node_host ''temp_sales'' sales_rows,
        ''SELECT * FROM temp_sales WHERE total > 60'', ''DROP TABLE temp_sales'']"
proof -
  note m = relations_restored_after_request
             [of "catalog_run :: (string list, string) engine" node_host sales_references filter_query
                 "[''users'']" set]
  have 1: "catalog_semantics (catalog_run :: (string list, string) engine) set"
    by (rule catalog_run_semantics)
  have 2: "\<forall>m\<in>set (matchAll filter_query). relation_name m \<notin> set [''users'']"
    unfolding filter_query_matches by code_simp
  have 3: "set (snd (snd (try_block catalog_run node_host sales_references filter_query [''users''])))
             - set (fst (snd (try_block catalog_run node_host sales_references filter_query [''users''])))
         = set (snd (snd (create_loop catalog_run node_host sales_references (matchAll filter_query) [] [''users''])))
             - set (fst (snd (try_block catalog_run node_host sales_references filter_query [''users''])))"
    by code_simp
  have 5: "snd (snd (snd (try_block (traced catalog_run) node_host sales_references filter_query ([''users''], []))))
          @ map (\<lambda>t. ''DROP TABLE '' @ t) (fst (snd (try_block (traced catalog_run) node_host sales_references filter_query ([''users''], []))))
      = [createTableSQL node_host ''temp_sales'' sales_rows,
        ''SELECT * FROM temp_sales WHERE total > 60'', ''DROP TABLE temp_sales'']"
    by code_simp
  from conjunct1 [OF m]
  have a: "snd (snd (query_local_with_references (traced catalog_run) node_host sales_references filter_query
                  ([''users''], [])))
     = [createTableSQL node_host ''temp_sales'' sales_rows,
        ''SELECT * FROM temp_sales WHERE total > 60'', ''DROP TABLE temp_sales'']"
    unfolding 5 .
  from conjunct2 [OF m, THEN mp, OF 1]
  have "(\<forall>m\<in>set (matchAll filter_query). relation_name m \<notin> set [''users'']) \<longrightarrow>
              set (snd (snd (create_loop catalog_run node_host sales_references (matchAll filter_query) [] [''users''])))
                - set (fst (snd (try_block catalog_run node_host sales_references filter_query [''users'']))) = set [''users'']
              \<and> (set (snd (query_local_with_references catalog_run node_host sales_references filter_query [''users''])) = set [''users'']
                   \<longleftrightarrow> set (snd (snd (try_block catalog_run node_host sales_references filter_query [''users''])))
                           - set (fst (snd (try_block catalog_run node_host sales_references filter_query [''users''])))
                       = set (snd (snd (create_loop catalog_run node_host sales_references (matchAll filter_query) [] [''users''])))
                           - set (fst (snd (try_block catalog_run node_host sales_references filter_query [''users'']))))"
    by (elim conjE)
  from this [THEN mp, OF 2, THEN conjunct2] 3
  have b: "set (snd (query_local_with_references catalog_run node_host sales_references filter_query [''users''])) = set [''users'']"
    by (rule iffD2)
  from b a show ?thesis by (rule conjI)
qed

text \<open>
  Claim C2 as stated fails where a generated name is taken: with a relation
  \<^verbatim>\<open>temp_sales\<close> in the engine before the request, creating the relation fails, and the
  cleanup drops the relation that was there before. The relations after the request
  are not those before it.
\<close>

theorem preexisting_relation_dropped:
  "snd (query_local_with_references catalog_run node_host sales_references filter_query [''temp_sales'']) = []
   \<and> fst (query_local_with_references catalog_run node_host sales_references filter_query [''temp_sales''])
       = Json_error ''Table temp_sales already exists''"
  by code_simp

section \<open>Resolution failures\<close>

lemma has_results_iff:
  "has_results x \<longleftrightarrow> (\<exists>d r rs. x = Some d \<and> results d = Some (r # rs))"
  by (auto simp: has_results_def split: option.splits list.splits)

lemma create_loop_fails_at:
  "\<not> has_results (refs (trim (snd m))) \<Longrightarrow>
     create_loop run host refs (m # ms) tt e = (Inl (no_results_message (trim (snd m))), tt, e)"
  by (auto simp: has_results_def split: option.splits list.splits)

lemma create_loop_append_fail:
  "\<not> has_results (refs (trim (snd m))) \<Longrightarrow>
     \<exists>k\<le>length pre. isl (fst (create_loop run host refs (pre @ m # post) tt e))
       \<and> fst (snd (create_loop run host refs (pre @ m # post) tt e)) = tt @ map relation_name (take k pre)"
proof (induction pre arbitrary: tt e)
  case Nil
  then show ?case by (simp add: create_loop_fails_at del: create_loop.simps)
next
  case (Cons x xs)
  show ?case
  proof (cases "has_results (refs (trim (snd x)))")
    case False
    then show ?thesis
      using create_loop_fails_at [of refs x run host "xs @ m # post" tt e]
      by (intro exI [of _ 0]) (simp del: create_loop.simps)
  next
    case True
    then obtain d r rs where d: "refs (trim (snd x)) = Some d" "results d = Some (r # rs)"
      by (auto simp: has_results_iff)
    let ?q = "createTableSQL host (relation_name x) (r # rs)"
    obtain res e' where run: "run e ?q = (res, e')"
      by (cases "run e ?q")
    show ?thesis
    proof (cases res)
      case (Inl err)
      with d run show ?thesis by (intro exI [of _ 1]) simp
    next
      case (Inr rows)
      from Cons.IH [OF Cons.prems, of "tt @ [relation_name x]" e']
      obtain k where "k \<le> length xs"
        "isl (fst (create_loop run host refs (xs @ m # post) (tt @ [relation_name x]) e'))"
        "fst (snd (create_loop run host refs (xs @ m # post) (tt @ [relation_name x]) e'))
           = (tt @ [relation_name x]) @ map relation_name (take k xs)"
        by blast
      with d run Inr show ?thesis by (intro exI [of _ "Suc k"]) simp
    qed
  qed
qed

lemma resolve_loop_first_failure:
  "\<forall>x\<in>set pre. has_results (g (trim (snd x))) \<Longrightarrow> \<not> has_results (g (trim (snd m))) \<Longrightarrow>
     resolve_loop g (pre @ m # post) refs =
       Inl (case g (trim (snd m)) of None \<Rightarrow> not_found_message (trim (snd m))
            | Some d \<Rightarrow> no_results_message (trim (snd m)))"
proof (induction pre arbitrary: refs)
  case Nil
  then show ?case
    by (auto simp: has_results_def split: option.splits list.splits)
next
  case (Cons x xs)
  from Cons.prems(1) obtain d r rs where d: "g (trim (snd x)) = Some d" "results d = Some (r # rs)"
    by (auto simp: has_results_iff)
  from Cons.prems have "\<forall>x\<in>set xs. has_results (g (trim (snd x)))" by simp
  from Cons.IH [OF this Cons.prems(2)] d show ?case by simp
qed

lemma resolve_loop_fails:
  "\<exists>m\<in>set ms. \<not> has_results (g (trim (snd m))) \<Longrightarrow> isl (resolve_loop g ms refs)"
proof (induction ms arbitrary: refs)
  case Nil
  then show ?case by simp
next
  case (Cons x xs)
  show ?case
  proof (cases "has_results (g (trim (snd x)))")
    case False
    then show ?thesis by (auto simp: has_results_def split: option.splits list.splits)
  next
    case True
    then obtain d r rs where d: "g (trim (snd x)) = Some d" "results d = Some (r # rs)"
      by (auto simp: has_results_iff)
    from True Cons.prems have "\<exists>m\<in>set xs. \<not> has_results (g (trim (snd m)))" by auto
    from Cons.IH [OF this] d show ?thesis by simp
  qed
qed

lemma messages_differ: "not_found_message l \<noteq> no_results_message l'"
  by (simp add: not_found_message_def no_results_message_def)

lemma client_resolution_failure:
  assumes "\<exists>m\<in>set (matchAll (trim sql)). \<not> has_results (g (trim (snd m)))"
  shows "isl (fst (executeSQLWithReferences run host g sql e))
       \<and> snd (executeSQLWithReferences run host g sql e) = e"
proof -
  from assms have ne: "trim sql \<noteq> []" by auto
  from resolve_loop_fails [OF assms, of Map.empty]
  obtain msg where "resolve_loop g (matchAll (trim sql)) Map.empty = Inl msg"
    by (cases "resolve_loop g (matchAll (trim sql)) Map.empty") auto
  with ne show ?thesis
    by (simp add: executeSQLWithReferences_def)
qed

lemma server_stops_at_failure:
  assumes "matchAll sql = pre @ m # post" "\<not> has_results (refs (trim (snd m)))"
  shows "(\<exists>err. fst (query_local_with_references run host refs sql e) = Json_error err)
       \<and> (\<exists>k\<le>length pre. fst (snd (try_block run host refs sql e)) = map relation_name (take k pre))"
proof -
  from assms(1) have ne: "sql \<noteq> []" by auto
  from create_loop_append_fail [where refs = refs and m = m and pre = pre and post = post
      and run = run and host = host and tt = "[]" and e = e, OF assms(2)]
  obtain k where k: "k \<le> length pre"
    and f: "isl (fst (create_loop run host refs (pre @ m # post) [] e))"
    and t: "fst (snd (create_loop run host refs (pre @ m # post) [] e)) = [] @ map relation_name (take k pre)"
    by blast
  obtain res tt e1 where cl: "create_loop run host refs (pre @ m # post) [] e = (res, tt, e1)"
    by (metis surj_pair)
  with f obtain err where res: "res = Inl err" by (cases res) auto
  from cl res assms(1) have tb: "try_block run host refs sql e = (Inl err, tt, e1)"
    by (simp add: try_block_def)
  with ne have "fst (query_local_with_references run host refs sql e) = Json_error err"
    by (simp add: query_local_with_references_def)
  moreover from tb cl t have "fst (snd (try_block run host refs sql e)) = map relation_name (take k pre)"
    by simp
  ultimately show ?thesis using k by blast
qed

lemma server_stops_at_failure_traced:
  assumes "matchAll sql = pre @ m # post" "\<not> has_results (refs (trim (snd m)))"
  shows "\<exists>k\<le>length pre.
           fst (snd (try_block (traced run) host refs sql (e, []))) = map relation_name (take k pre)
         \<and> list_all2 (\<lambda>q x. creates (relation_name x) q)
              (snd (snd (snd (try_block (traced run) host refs sql (e, []))))) (take k pre)"
proof -
  let ?ms = "pre @ m # post"
  let ?cl = "create_loop (traced run) host refs ?ms [] (e, [])"
  from create_loop_append_fail [where refs = refs and m = m and pre = pre and post = post
      and run = "traced run" and host = host and tt = "[]" and e = "(e, [])", OF assms(2)]
  obtain k where k: "k \<le> length pre"
    and f: "isl (fst ?cl)"
    and t: "fst (snd ?cl) = [] @ map relation_name (take k pre)"
    by blast
  from create_loop_traced [of ?ms run host refs "[]" e "[]"]
  obtain j stmts where j: "j \<le> length ?ms"
    and t': "fst (snd ?cl) = [] @ map relation_name (take j ?ms)"
    and l: "snd (snd (snd ?cl)) = [] @ stmts"
    and c: "list_all2 (\<lambda>q x. creates (relation_name x) q) stmts (take j ?ms)"
    by blast
  from t t' have "length (take k pre) = length (take j ?ms)"
    by (metis append_Nil length_map)
  with k j have "j = k" by simp
  with k have tk: "take j ?ms = take k pre" by simp
  obtain res tt e1 log where cl: "?cl = (res, tt, (e1, log))"
    by (metis surj_pair)
  with f obtain err where res: "res = Inl err" by (cases res) auto
  from cl res assms(1) have tb: "try_block (traced run) host refs sql (e, []) = (Inl err, tt, (e1, log))"
    by (simp add: try_block_def)
  from tb cl t l c tk k show ?thesis by auto
qed

text \<open>
  Claim C4, as amended. When a label of a request issued through the client's
  \<^verbatim>\<open>executeSQLWithReferences\<close> fails resolution (no node has the label, or its results are
  absent or empty), the call fails before the server is contacted: the engine is left
  as it was and no statement reaches it, so no relation is created for any label. The
  server's handler, taken alone, stops at the first reference whose entry fails its
  check and answers with an error; the relation names it has recorded and the
  statements it has issued by then are those of references in front of that one, so
  it attempts no relation for the failing reference or a later one.
\<close>

theorem resolution_failure_aborts:
  "((\<exists>m\<in>set (matchAll (trim sql)). \<not> has_results (getNodeByLabel (trim (snd m))))
      \<longrightarrow> isl (fst (executeSQLWithReferences (traced run) host getNodeByLabel sql (e, log)))
        \<and> snd (executeSQLWithReferences (traced run) host getNodeByLabel sql (e, log)) = (e, log))
   \<and> (matchAll sql = pre @ m # post \<and> \<not> has_results (refs (trim (snd m)))
      \<longrightarrow> (\<exists>err. fst (query_local_with_references run host refs sql e) = Json_error err)
        \<and> (\<exists>k\<le>length pre.
              fst (snd (try_block (traced run) host refs sql (e, [])))
                = map (\<lambda>m. tempTableName (trim (snd m))) (take k pre)
            \<and> list_all2 (\<lambda>q x. creates (tempTableName (trim (snd x))) q)
                 (snd (snd (snd (try_block (traced run) host refs sql (e, []))))) (take k pre)))"
  using client_resolution_failure [of sql getNodeByLabel "traced run" host "(e, log)"]
    server_stops_at_failure [of sql pre m post refs run host e]
    server_stops_at_failure_traced [of sql pre m post refs run host e]
  by blast

text \<open>
  The request for \<^verbatim>\<open>sales\<close> and \<^verbatim>\<open>ghost\<close>: through the client nothing reaches the
  engine; the server's handler records the relation of \<^verbatim>\<open>sales\<close> and nothing more.
\<close>

theorem resolution_failure_aborts_witness:
  "executeSQLWithReferences (traced catalog_run) node_host sales_references ghost_query ([], [])
     = (Inl (not_found_message ''ghost''), ([], []))
   \<and> fst (snd (try_block (traced catalog_run) node_host sales_references ghost_query ([], [])))
     = [''temp_sales'']"
proof -
  have m: "matchAll (trim ghost_query) = [(''{sales}'', ''sales''), (''{ghost}'', ''ghost'')]"
    by code_simp
  have m': "matchAll ghost_query = [(''{sales}'', ''sales'')] @ (''{ghost}'', ''ghost'') # []"
    by code_simp
  have g: "\<not> has_results (sales_references (trim (snd (''{ghost}'', ''ghost''))))"
    by code_simp
  have h: "\<exists>m\<in>set (matchAll (trim ghost_query)). \<not> has_results (sales_references (trim (snd m)))"
    unfolding m using g by simp
  have v: "fst (executeSQLWithReferences (traced catalog_run) node_host sales_references ghost_query ([], []))
      = Inl (not_found_message ''ghost'')"
    by code_simp
  have w: "fst (snd (try_block (traced catalog_run) node_host sales_references ghost_query ([], []))) \<noteq> []"
    by code_simp
  from resolution_failure_aborts [where sql = ghost_query and getNodeByLabel = sales_references
      and run = catalog_run and host = node_host and e = "[]" and log = "[]"
      and pre = "[(''{sales}'', ''sales'')]" and m = "(''{ghost}'', ''ghost'')" and post = "[]"
      and refs = sales_references] h m' g
  have a: "snd (executeSQLWithReferences (traced catalog_run) node_host sales_references ghost_query ([], [])) = ([], [])"
    and b: "\<exists>k\<le>length [(''{sales}'', ''sales'')].
              fst (snd (try_block (traced catalog_run) node_host sales_references ghost_query ([], [])))
                = map (\<lambda>m. tempTableName (trim (snd m))) (take k [(''{sales}'', ''sales'')])
            \<and> list_all2 (\<lambda>q x. creates (tempTableName (trim (snd x))) q)
                 (snd (snd (snd (try_block (traced catalog_run) node_host sales_references ghost_query ([], [])))))
                 (take k [(''{sales}'', ''sales'')])"
    by blast+
  from b w have "fst (snd (try_block (traced catalog_run) node_host sales_references ghost_query ([], [])))
       = map (\<lambda>m. tempTableName (trim (snd m))) [(''{sales}'', ''sales'')]"
    by (auto simp: le_Suc_eq)
  then have c: "fst (snd (try_block (traced catalog_run) node_host sales_references ghost_query ([], []))) = [''temp_sales'']"
    by (simp add: tempTableName_def trim_def is_space_def is_word_char_def)
  from a v c show ?thesis by (simp add: prod_eq_iff)
qed

text \<open>
  Claim C4 as stated fails on the server's handler: for a request whose first label
  resolves and whose second does not, the relation of the first label exists in the
  engine when the handler gives up; the statements issued are its creation and,
  in the cleanup, its removal.
\<close>

theorem relation_created_before_failure:
  "fst (query_local_with_references catalog_run node_host sales_references ghost_query [])
     = Json_error (no_results_message ''ghost'')
   \<and> snd (snd (try_block catalog_run node_host sales_references ghost_query [])) = [''temp_sales'']
   \<and> snd (snd (query_local_with_references (traced catalog_run) node_host sales_references ghost_query ([], [])))
     = [createTableSQL node_host ''temp_sales'' sales_rows, ''DROP TABLE temp_sales'']"
  by code_simp

lemma client_first_failure:
  assumes "matchAll (trim sql) = pre @ m # post"
    and "\<forall>x\<in>set pre. has_results (g (trim (snd x)))"
    and "\<not> has_results (g (trim (snd m)))"
  shows "fst (executeSQLWithReferences run host g sql e) =
           Inl (case g (trim (snd m)) of None \<Rightarrow> not_found_message (trim (snd m))
                | Some d \<Rightarrow> no_results_message (trim (snd m)))"
proof -
  from assms(1) have ne: "trim sql \<noteq> []" by auto
  from resolve_loop_first_failure [OF assms(2,3), of post Map.empty] assms(1) ne
  show ?thesis
    by (simp add: executeSQLWithReferences_def)
qed

text \<open>
  Claim C5, as amended. The client's resolution distinguishes the two kinds of failure:
  at the first reference that fails, the call fails with the message
  \<^verbatim>\<open>Node with label "L" not found\<close> when the lookup has no node for the label, and with
  \<^verbatim>\<open>Node "L" has no results\<close> when the node is there and its results are absent or
  empty; the two messages differ for all labels. The server's handler has one message
  for both: whenever its loop reaches a reference whose entry is missing or has no
  rows, it fails with \<^verbatim>\<open>Node "L" has no results\<close>.
\<close>

theorem resolution_failure_kinds:
  "(matchAll (trim sql) = pre @ m # post
      \<and> (\<forall>x\<in>set pre. has_results (getNodeByLabel (trim (snd x))))
      \<and> \<not> has_results (getNodeByLabel (trim (snd m)))
     \<longrightarrow> fst (executeSQLWithReferences run host getNodeByLabel sql e) =
           Inl (case getNodeByLabel (trim (snd m)) of
                  None \<Rightarrow> not_found_message (trim (snd m))
                | Some d \<Rightarrow> no_results_message (trim (snd m))))
   \<and> not_found_message l \<noteq> no_results_message l'
   \<and> (\<not> has_results (refs (trim (snd m)))
     \<longrightarrow> fst (create_loop run host refs (m # ms) tt e) = Inl (no_results_message (trim (snd m))))"
  using client_first_failure [of sql pre m post getNodeByLabel run host e]
    messages_differ [of l l'] create_loop_fails_at [of refs m run host ms tt e]
  by simp

theorem resolution_failure_kinds_witness:
  "fst (executeSQLWithReferences catalog_run node_host sales_references ghost_query [])
     = Inl (not_found_message ''ghost'')
   \<and> fst (executeSQLWithReferences catalog_run node_host unrun_node ghost_query [])
     = Inl (no_results_message ''sales'')
   \<and> fst (create_loop catalog_run node_host unrun_node [(''{sales}'', ''sales'')] [] [])
     = Inl (no_results_message ''sales'')"
proof -
  have m1: "matchAll (trim ghost_query) = [(''{sales}'', ''sales'')] @ (''{ghost}'', ''ghost'') # []"
    by code_simp
  have m2: "matchAll (trim ghost_query) = [] @ (''{sales}'', ''sales'') # [(''{ghost}'', ''ghost'')]"
    by code_simp
  have p1: "\<forall>x\<in>set [(''{sales}'', ''sales'')]. has_results (sales_references (trim (snd x)))"
    by code_simp
  have p2: "\<forall>x\<in>set []. has_results (unrun_node (trim (snd x)))"
    by simp
  have f1: "\<not> has_results (sales_references (trim (snd (''{ghost}'', ''ghost''))))"
    by code_simp
  have f2: "\<not> has_results (unrun_node (trim (snd (''{sales}'', ''sales''))))"
    by code_simp
  have c1: "(case sales_references (trim (snd (''{ghost}'', ''ghost''))) of
               None \<Rightarrow> not_found_message (trim (snd (''{ghost}'', ''ghost'')))
             | Some d \<Rightarrow> no_results_message (trim (snd (''{ghost}'', ''ghost'')))) = not_found_message ''ghost''"
    by code_simp
  have c2: "(case unrun_node (trim (snd (''{sales}'', ''sales''))) of
               None \<Rightarrow> not_found_message (trim (snd (''{sales}'', ''sales'')))
             | Some d \<Rightarrow> no_results_message (trim (snd (''{sales}'', ''sales'')))) = no_results_message ''sales''"
    by code_simp
  have t: "trim (snd (''{sales}'', ''sales'')) = ''sales''" by code_simp
  note k1 = resolution_failure_kinds [where sql = ghost_query and pre = "[(''{sales}'', ''sales'')]"
      and m = "(''{ghost}'', ''ghost'')" and post = "[]" and getNodeByLabel = sales_references
      and run = catalog_run and host = node_host and e = "[]" and l = "[]" and l' = "[]"
      and refs = sales_references and ms = "[]" and tt = "[]"]
  note k2 = resolution_failure_kinds [where sql = ghost_query and pre = "[]"
      and m = "(''{sales}'', ''sales'')" and post = "[(''{ghost}'', ''ghost'')]" and getNodeByLabel = unrun_node
      and refs = unrun_node and ms = "[]" and tt = "[]" and l = "[]" and l' = "[]"
      and run = catalog_run and host = node_host and e = "[]"]
  from k1 m1 p1 f1
  have "fst (executeSQLWithReferences catalog_run node_host sales_references ghost_query [])
     = Inl (case sales_references (trim (snd (''{ghost}'', ''ghost''))) of
               None \<Rightarrow> not_found_message (trim (snd (''{ghost}'', ''ghost'')))
             | Some d \<Rightarrow> no_results_message (trim (snd (''{ghost}'', ''ghost''))))"
    by blast
  then have a: "fst (executeSQLWithReferences catalog_run node_host sales_references ghost_query [])
     = Inl (not_found_message ''ghost'')"
    by (simp only: c1)
  from k2 m2 p2 f2
  have "fst (executeSQLWithReferences catalog_run node_host unrun_node ghost_query [])
     = Inl (case unrun_node (trim (snd (''{sales}'', ''sales''))) of
               None \<Rightarrow> not_found_message (trim (snd (''{sales}'', ''sales'')))
             | Some d \<Rightarrow> no_results_message (trim (snd (''{sales}'', ''sales''))))"
    by blast
  then have b: "fst (executeSQLWithReferences catalog_run node_host unrun_node ghost_query [])
     = Inl (no_results_message ''sales'')"
    by (simp only: c2)
  from k2 f2
  have "fst (create_loop catalog_run node_host unrun_node [(''{sales}'', ''sales'')] [] [])
     = Inl (no_results_message (trim (snd (''{sales}'', ''sales''))))"
    by blast
  then have c: "fst (create_loop catalog_run node_host unrun_node [(''{sales}'', ''sales'')] [] [])
     = Inl (no_results_message ''sales'')"
    by (simp only: t)
  from a b c show ?thesis by simp
qed

text \<open>
  Claim C5 as stated fails on the server's handler: a label with no entry among the
  submitted references and a label whose entry has an empty result set get the same
  error.
\<close>

theorem server_reports_one_kind:
  "fst (query_local_with_references catalog_run node_host Map.empty ''SELECT * FROM {ghost}'' [])
     = Json_error (no_results_message ''ghost'')
   \<and> fst (query_local_with_references catalog_run node_host
           [''ghost'' \<mapsto> \<lparr>results = Some [], label = ''ghost''\<rparr>] ''SELECT * FROM {ghost}'' [])
     = Json_error (no_results_message ''ghost'')"
  by code_simp

section \<open>Materialized literals\<close>
























text \<open>
  Where a row lacks a column that has the name of an inherited member, \<^verbatim>\<open>row[col]\<close>
  finds the member, and the cell holds the member's text: the case that the last
  hypothesis of the theorem leaves out.
\<close>

lemma inherited_member_written:
  "createTableSQL node_host ''temp_t'' sparse_rows
     = ''CREATE TEMP TABLE temp_t AS SELECT * FROM (VALUES (1),'' @ [NL] @ ''('' @ [SQ]
       @ ''function toString() { [native code] }'' @ [SQ] @ '')) AS t('' @ [DQ] @ ''toString'' @ [DQ] @ '')''
   \<and> read_statement (createTableSQL node_host ''temp_t'' sparse_rows)
     = Some (''temp_t'', [''toString''], [[Bare ''1''], [Quoted ''function toString() { [native code] }'']])"
  by code_simp

section \<open>Queries without references\<close>

lemma matchAll_dropWhile_space: "matchAll (dropWhile is_space s) = matchAll s"
proof (induction s)
  case Nil
  show ?case by simp
next
  case (Cons c cs)
  have "is_space c \<Longrightarrow> c \<noteq> LBRACE" by (auto simp: is_space_def)
  with Cons show ?case by auto
qed

lemma matchAll_append_empty: "matchAll (s @ w) = [] \<Longrightarrow> matchAll s = []"
proof (induction s rule: matchAll.induct)
  case 1
  show ?case by simp
next
  case (2 c cs)
  let ?P = "\<lambda>x. x \<noteq> RBRACE"
  show ?case
  proof (cases "c = LBRACE \<and> takeWhile ?P cs \<noteq> [] \<and> dropWhile ?P cs \<noteq> []")
    case True
    then have "\<not> (\<forall>x\<in>set cs. ?P x)"
      by (simp add: dropWhile_eq_Nil_conv)
    then obtain x where x: "x \<in> set cs" "\<not> ?P x" by blast
    have tw: "takeWhile ?P (cs @ w) = takeWhile ?P cs"
      using x by (rule takeWhile_append1)
    have dw: "dropWhile ?P (cs @ w) = dropWhile ?P cs @ w"
      using x by (rule dropWhile_append1)
    have "matchAll (c # (cs @ w)) \<noteq> []"
      using True by (simp add: tw dw)
    then have "matchAll ((c # cs) @ w) \<noteq> []" by simp
    with "2.prems" show ?thesis by simp
  next
    case False
    from "2.prems" have "matchAll (c # (cs @ w)) = []" by simp
    then have "matchAll (cs @ w) = []"
      by (simp split: if_splits)
    with False "2.IH"(2) show ?thesis by simp
  qed
qed

lemma matchAll_trim_empty: "matchAll sql = [] \<Longrightarrow> matchAll (trim sql) = []"
proof -
  assume a: "matchAll sql = []"
  let ?u = "dropWhile is_space sql"
  have u: "?u = trim sql @ rev (takeWhile is_space (rev ?u))"
    unfolding trim_def by (metis rev_append rev_rev_ident takeWhile_dropWhile_id)
  from a have "matchAll ?u = []" by (simp add: matchAll_dropWhile_space)
  with u have "matchAll (trim sql @ rev (takeWhile is_space (rev ?u))) = []" by simp
  then show ?thesis by (rule matchAll_append_empty)
qed

lemma server_no_reference:
  "matchAll sql = [] \<Longrightarrow> query_local_with_references run host refs sql e = query_local run sql e"
  by (auto simp: query_local_with_references_def query_local_def try_block_def
      split: prod.splits sum.splits)

lemma traced_no_reference:
  "matchAll sql = [] \<Longrightarrow>
     snd (snd (query_local_with_references (traced run) host refs sql (e, [])))
       = (if trim sql = [] then [] else [trim sql])"
  by (auto simp: query_local_with_references_def try_block_def executeSQL_def traced_def Let_def
      trim_def split: prod.splits sum.splits)

lemma client_no_reference:
  assumes "matchAll sql = []"
  shows "executeSQLWithReferences run host g sql e = client_executeSQL run sql e"
proof -
  from assms have "matchAll (trim sql) = []" by (rule matchAll_trim_empty)
  then show ?thesis
    by (simp add: executeSQLWithReferences_def client_executeSQL_def server_no_reference Let_def)
qed

text \<open>
  Claim C8. For a query text in which the scanner finds no reference, the handler with
  references gives the response and the engine state of the plain handler, for every
  engine, hence the same rows and the same error; the client's function with references
  gives the result of the client's plain function; and the only statement that reaches
  the engine is the trimmed query itself, so no relation is created.
\<close>

theorem no_reference_is_plain_execution:
  assumes "matchAll sql = []"
  shows "query_local_with_references run host refs sql e = query_local run sql e
    \<and> executeSQLWithReferences run host getNodeByLabel sql e = client_executeSQL run sql e
    \<and> snd (snd (query_local_with_references (traced run) host refs sql (e, [])))
        = (if trim sql = [] then [] else [trim sql])"
  using server_no_reference [OF assms, of run host refs e]
    client_no_reference [OF assms, of run host getNodeByLabel e]
    traced_no_reference [OF assms, of run host refs e]
  by simp

theorem no_reference_is_plain_execution_witness:
  "matchAll plain_query = []
   \<and> query_local_with_references catalog_run node_host sales_references plain_query [''users'']
       = query_local catalog_run plain_query [''users'']
   \<and> snd (snd (query_local_with_references (traced catalog_run) node_host sales_references plain_query
                    ([''users''], [])))
       = [''SELECT city FROM users'']"
proof -
  have h: "matchAll plain_query = []" by code_simp
  have t: "(if trim plain_query = [] then [] else [trim plain_query]) = [''SELECT city FROM users'']"
    by code_simp
  from no_reference_is_plain_execution [OF h, of catalog_run node_host sales_references "[''users'']" sales_references]
  have "query_local_with_references catalog_run node_host sales_references plain_query [''users'']
       = query_local catalog_run plain_query [''users'']"
    and "snd (snd (query_local_with_references (traced catalog_run) node_host sales_references plain_query
                    ([''users''], [])))
       = (if trim plain_query = [] then [] else [trim plain_query])"
    by blast+
  with h t show ?thesis by simp
qed

section \<open>Failures of the cleanup\<close>

lemma response_from_try_block:
  "fst (query_local_with_references run host refs sql e) =
     (if sql = [] then Status400 ''SQL query is required''
      else case fst (try_block run host refs sql e) of
             Inl err \<Rightarrow> Json_error err
           | Inr rows \<Rightarrow> Json_data rows)"
  by (auto simp: query_local_with_references_def split: prod.splits sum.splits)

lemma createTableSQL_not_drop: "\<not> prefix ''DROP TABLE '' (createTableSQL host name (r # rs))"
proof -
  obtain rest where "createTableSQL host name (r # rs) = ''CREATE TEMP TABLE '' @ name @ '' AS '' @ rest"
    using createTableSQL_shape by blast
  then show ?thesis by simp
qed

lemma create_loop_agree:
  assumes "\<forall>e q. \<not> prefix ''DROP TABLE '' q \<longrightarrow> run' e q = run e q"
  shows "create_loop run' host refs ms tt e = create_loop run host refs ms tt e"
proof (induction ms arbitrary: tt e)
  case Nil
  show ?case by simp
next
  case (Cons m ms)
  have "run' e (createTableSQL host name (r # rs)) = run e (createTableSQL host name (r # rs))" for name r rs
    using assms createTableSQL_not_drop by blast
  with Cons show ?case
    by (auto simp: Let_def split: option.splits list.splits prod.splits sum.splits)
qed

lemma try_block_agree:
  assumes "\<forall>e q. \<not> prefix ''DROP TABLE '' q \<longrightarrow> run' e q = run e q"
    and "\<not> prefix ''DROP TABLE '' (trim (modifiedSQL sql (matchAll sql)))"
  shows "try_block run' host refs sql e = try_block run host refs sql e"
proof -
  have "executeSQL run' (modifiedSQL sql (matchAll sql)) e1 = executeSQL run (modifiedSQL sql (matchAll sql)) e1" for e1
    using assms by (simp add: executeSQL_def Let_def)
  then show ?thesis
    by (auto simp: try_block_def create_loop_agree [OF assms(1)] Let_def
        split: prod.splits sum.splits)
qed

text \<open>
  Claim C9. The response of the handler with references is decided when the cleanup
  starts: it is the rows of the \<^verbatim>\<open>try\<close> block when the block succeeded and the error of
  the block when it failed, and the outcome of the \<^verbatim>\<open>DROP TABLE\<close> statements of the
  cleanup does not enter it. Two engines that differ only in what they do with
  \<^verbatim>\<open>DROP TABLE\<close> statements give the same response, for every request whose own
  statement is not such a statement.
\<close>

theorem cleanup_failure_not_escalated:
  "fst (query_local_with_references run host refs sql e) =
     (if sql = [] then Status400 ''SQL query is required''
      else case fst (try_block run host refs sql e) of
             Inl err \<Rightarrow> Json_error err
           | Inr rows \<Rightarrow> Json_data rows)
   \<and> ((\<forall>e q. \<not> prefix ''DROP TABLE '' q \<longrightarrow> run' e q = run e q)
        \<and> \<not> prefix ''DROP TABLE '' (trim (modifiedSQL sql (matchAll sql)))
      \<longrightarrow> fst (query_local_with_references run' host refs sql e)
          = fst (query_local_with_references run host refs sql e))"
proof -
  have "fst (query_local_with_references run' host refs sql e)
          = fst (query_local_with_references run host refs sql e)"
    if "\<forall>e q. \<not> prefix ''DROP TABLE '' q \<longrightarrow> run' e q = run e q"
      and "\<not> prefix ''DROP TABLE '' (trim (modifiedSQL sql (matchAll sql)))"
    using try_block_agree [OF that] by (simp add: response_from_try_block)
  then show ?thesis
    using response_from_try_block [of run host refs sql e] by blast
qed

text \<open>
  With an engine whose every \<^verbatim>\<open>DROP TABLE\<close> fails the request still succeeds, with
  the same response; the relation stays behind.
\<close>

theorem cleanup_failure_not_escalated_witness:
  "fst (query_local_with_references (failing_drops catalog_run) node_host sales_references filter_query [])
     = fst (query_local_with_references catalog_run node_host sales_references filter_query [])
   \<and> fst (query_local_with_references (failing_drops catalog_run) node_host sales_references filter_query [])
     = Json_data []
   \<and> snd (query_local_with_references (failing_drops catalog_run) node_host sales_references filter_query [])
     = [''temp_sales'']"
proof -
  have 1: "\<forall>e q. \<not> prefix ''DROP TABLE '' q \<longrightarrow> failing_drops catalog_run e q = (catalog_run :: (string list, string) engine) e q"
    by (simp add: failing_drops_def)
  have 2: "\<not> prefix ''DROP TABLE '' (trim (modifiedSQL filter_query (matchAll filter_query)))"
    by code_simp
  have 3: "fst (query_local_with_references catalog_run node_host sales_references filter_query []) = Json_data []"
    by code_simp
  have 4: "snd (query_local_with_references (failing_drops catalog_run) node_host sales_references filter_query [])
     = [''temp_sales'']"
    by code_simp
  from cleanup_failure_not_escalated [where run' = "failing_drops catalog_run" and run = catalog_run
      and host = node_host and refs = sales_references and sql = filter_query and e = "[]"] 1 2
  have "fst (query_local_with_references (failing_drops catalog_run) node_host sales_references filter_query [])
     = fst (query_local_with_references catalog_run node_host sales_references filter_query [])"
    by blast
  with 3 4 show ?thesis by simp
qed

section \<open>Empty query text\<close>

lemma trim_whitespace: "\<forall>c\<in>set sql. is_space c \<Longrightarrow> trim sql = []"
proof -
  assume "\<forall>c\<in>set sql. is_space c"
  then show ?thesis by (auto simp: trim_def dest: set_dropWhileD)
qed

lemma matchAll_whitespace: "\<forall>c\<in>set sql. is_space c \<Longrightarrow> matchAll sql = []"
proof (induction sql)
  case Nil
  show ?case by simp
next
  case (Cons c cs)
  have "is_space c \<Longrightarrow> c \<noteq> LBRACE" by (auto simp: is_space_def)
  with Cons show ?case by auto
qed

lemma empty_text_at_the_handlers:
  "\<forall>c\<in>set sql. is_space c \<Longrightarrow>
     query_local run sql e
       = (if sql = [] then Status400 ''SQL query is required'' else Json_error ''Empty query'', e)
   \<and> query_local_with_references run host refs sql e
       = (if sql = [] then Status400 ''SQL query is required'' else Json_error ''Empty query'', e)"
proof -
  assume a: "\<forall>c\<in>set sql. is_space c"
  then have t: "trim sql = []" by (rule trim_whitespace)
  from a have m: "matchAll sql = []" by (rule matchAll_whitespace)
  have "query_local run sql e
       = (if sql = [] then Status400 ''SQL query is required'' else Json_error ''Empty query'', e)"
    using t by (simp add: query_local_def executeSQL_def)
  then show ?thesis
    using m by (simp add: server_no_reference)
qed

lemma executeSQL_module_connected:
  "conn e \<Longrightarrow> executeSQL_module conn initDatabase runQuery sql e = executeSQL runQuery sql e"
  by (simp add: executeSQL_module_def)



end
